theory Spec2Isabelle
  imports Main "HOL-Library.Multiset"
begin

section \<open>Data model\<close>

text \<open>
  The three tables of the slot swapper (\<^verbatim>\<open>models/user.py\<close>, \<^verbatim>\<open>models/event.py\<close>,
  \<^verbatim>\<open>models/swap_request.py\<close>). Identifiers are opaque UUIDs, instants are points on a
  line; only equality of identifiers and the order of instants are ever used, so they
  are taken as naturals and integers. A column called \<^verbatim>\<open>id\<close> or \<^verbatim>\<open>status\<close> in two models
  gets the model's name in front, since field names are global.
\<close>

type_synonym uuid = nat
type_synonym datetime = int

datatype EventStatusEnum = BUSY | SWAPPABLE | SWAP_PENDING

datatype SwapRequestStatusEnum = PENDING | ACCEPTED | REJECTED

record User =
  user_id :: uuid
  email :: string
  password_hash :: string
  name :: string

record Event =
  event_id :: uuid
  title :: string
  start_time :: datetime
  end_time :: datetime
  status :: EventStatusEnum
  owner_id :: uuid

record SwapRequest =
  swap_id :: uuid
  requester_id :: uuid
  offered_event_id :: uuid
  requested_event_id :: uuid
  swap_status :: SwapRequestStatusEnum
  created_at :: datetime
  updated_at :: datetime

text \<open>
  The database is the three tables, each a list of rows in insertion order.
\<close>

record database =
  users :: "User list"
  events :: "Event list"
  swap_requests :: "SwapRequest list"

subsection \<open>Schemas\<close>

text \<open>
  \<^verbatim>\<open>EventResponse\<close> has exactly the columns of \<^verbatim>\<open>Event\<close> and is filled from them
  (\<^verbatim>\<open>model_validate(..., from_attributes=True)\<close>), so an \<^typ>\<open>Event\<close> row stands for it.
  \<^verbatim>\<open>SwappableEventResponse\<close> subclasses it with \<^verbatim>\<open>owner_name\<close>;
  \<^verbatim>\<open>SwapRequestResponse\<close> carries the columns of the request and the three details.
\<close>

record UserResponse =
  response_id :: uuid
  response_email :: string
  response_name :: string

record SwappableEventResponse = Event +
  owner_name :: string

record SwapRequestResponse = SwapRequest +
  offered_event_details :: Event
  requested_event_details :: Event
  requester_details :: UserResponse

record SwapRequestCreate =
  my_slot_id :: uuid
  their_slot_id :: uuid

record SwapResponseAction =
  accepted :: bool

record EventCreate =
  create_title :: string
  create_start_time :: datetime
  create_end_time :: datetime

record EventUpdate =
  update_title :: "string option"
  update_start_time :: "datetime option"
  update_end_time :: "datetime option"
  update_status :: "EventStatusEnum option"

subsection \<open>Failures\<close>

text \<open>
  Every \<^verbatim>\<open>raise HTTPException(status_code=..., detail=...)\<close> is a value. The failure
  kinds of the specification are the status codes: NotFound is 404, PermissionDenied
  is 403, InvalidOperation is 400 and InternalError is 500.
\<close>

datatype HTTPException = HTTPException (status_code: nat) (detail: string)

definition NotFound :: "HTTPException \<Rightarrow> bool" where
  "NotFound e \<longleftrightarrow> status_code e = 404"

definition PermissionDenied :: "HTTPException \<Rightarrow> bool" where
  "PermissionDenied e \<longleftrightarrow> status_code e = 403"

definition InvalidOperation :: "HTTPException \<Rightarrow> bool" where
  "InvalidOperation e \<longleftrightarrow> status_code e = 400"

definition InternalError :: "HTTPException \<Rightarrow> bool" where
  "InternalError e \<longleftrightarrow> status_code e = 500"

section \<open>The session: queries and row updates\<close>

text \<open>
  \<^verbatim>\<open>db.query(M).filter(M.id == i).first()\<close> is the first row with that primary key, or
  \<^verbatim>\<open>None\<close>.
\<close>

definition query_user :: "database \<Rightarrow> uuid \<Rightarrow> User option" where
  "query_user db i = find (\<lambda>u. user_id u = i) (users db)"

definition query_event :: "database \<Rightarrow> uuid \<Rightarrow> Event option" where
  "query_event db i = find (\<lambda>e. event_id e = i) (events db)"

definition query_swap :: "database \<Rightarrow> uuid \<Rightarrow> SwapRequest option" where
  "query_swap db i = find (\<lambda>r. swap_id r = i) (swap_requests db)"

text \<open>
  A loaded row is an object of the session, one per primary key (the identity map): two
  queries for the same key give the same object. An attribute assignment is therefore an
  update of the row with that key, and a later read of the attribute through either name
  sees it. The updates below act on the session's view of the tables.
\<close>

definition set_event_status :: "uuid \<Rightarrow> EventStatusEnum \<Rightarrow> database \<Rightarrow> database" where
  "set_event_status i s db =
     db\<lparr>events := map (\<lambda>e. if event_id e = i then e\<lparr>status := s\<rparr> else e) (events db)\<rparr>"

definition set_event_owner :: "uuid \<Rightarrow> uuid \<Rightarrow> database \<Rightarrow> database" where
  "set_event_owner i ow db =
     db\<lparr>events := map (\<lambda>e. if event_id e = i then e\<lparr>owner_id := ow\<rparr> else e) (events db)\<rparr>"

text \<open>
  \<^verbatim>\<open>updated_at\<close> has \<^verbatim>\<open>onupdate=func.now()\<close>: writing the request's row stamps it.
\<close>

definition set_swap_status ::
  "uuid \<Rightarrow> SwapRequestStatusEnum \<Rightarrow> datetime \<Rightarrow> database \<Rightarrow> database" where
  "set_swap_status i s now db =
     db\<lparr>swap_requests :=
          map (\<lambda>r. if swap_id r = i then r\<lparr>swap_status := s, updated_at := now\<rparr> else r)
            (swap_requests db)\<rparr>"

definition add_swap :: "SwapRequest \<Rightarrow> database \<Rightarrow> database" where
  "add_swap r db = db\<lparr>swap_requests := swap_requests db @ [r]\<rparr>"

definition add_event :: "Event \<Rightarrow> database \<Rightarrow> database" where
  "add_event e db = db\<lparr>events := events db @ [e]\<rparr>"

definition delete_row :: "uuid \<Rightarrow> database \<Rightarrow> database" where
  "delete_row i db = db\<lparr>events := filter (\<lambda>e. event_id e \<noteq> i) (events db)\<rparr>"

text \<open>
  What the store and the response validation do is outside the handlers. \<open>fault\<close> is the
  fault, if any, that a call meets:
  \<^item> \<open>Commit_fault\<close>: the store refuses the transaction; \<^verbatim>\<open>db.commit()\<close> raises and the
    committed tables stay as they were;
  \<^item> \<open>Refresh_fault\<close>: the store commits and then fails the next read, which is the
    \<^verbatim>\<open>db.refresh(...)\<close> that follows the commit; the tables are already committed;
  \<^item> \<open>Validation_fault\<close>: the store serves, and building the response raises: the
    \<^verbatim>\<open>EmailStr\<close> validation of \<^verbatim>\<open>UserResponse\<close> rejects the address of the user in it;
    the tables are already committed;
  \<^item> \<open>No_fault\<close>: none of these.

  A handler that never reaches the step of a fault is not affected by it. An exception
  that no handler catches ends in the framework's plain 500 response.
\<close>

datatype fault = Commit_fault | Refresh_fault | Validation_fault | No_fault

definition unhandled :: HTTPException where
  "unhandled = HTTPException 500 ''Internal Server Error''"

definition model_validate_event :: "Event \<Rightarrow> Event" where
  "model_validate_event e = e"

text \<open>
  \<^verbatim>\<open>UserResponse.model_validate(user)\<close> copies \<^verbatim>\<open>id\<close>, \<^verbatim>\<open>email\<close> and \<^verbatim>\<open>name\<close>. The address
  goes through \<^verbatim>\<open>EmailStr\<close>, a validator outside the repository: where it rejects the
  address the call meets \<open>Validation_fault\<close>; \<open>model_validate_user\<close> is the response for an
  address it accepts, as \<^verbatim>\<open>signup\<close> stores it (its payload has the same type).
\<close>

definition model_validate_user :: "User \<Rightarrow> UserResponse" where
  "model_validate_user u =
     \<lparr>response_id = user_id u, response_email = email u, response_name = name u\<rparr>"

definition swap_response :: "SwapRequest \<Rightarrow> Event \<Rightarrow> Event \<Rightarrow> User \<Rightarrow> SwapRequestResponse" where
  "swap_response swap offered_event requested_event requester =
     \<lparr>swap_id = swap_id swap,
      requester_id = requester_id swap,
      offered_event_id = offered_event_id swap,
      requested_event_id = requested_event_id swap,
      swap_status = swap_status swap,
      created_at = created_at swap,
      updated_at = updated_at swap,
      offered_event_details = model_validate_event offered_event,
      requested_event_details = model_validate_event requested_event,
      requester_details = model_validate_user requester\<rparr>"

section \<open>The swap router\<close>

subsection \<open>\<^verbatim>\<open>request_swap\<close>\<close>

text \<open>
  \<open>new_id\<close> is the \<^verbatim>\<open>uuid.uuid4()\<close> default of the new row and \<open>now\<close> the server's
  \<^verbatim>\<open>func.now()\<close>. The handler returns its response or its exception, and the committed
  tables after the call. After \<^verbatim>\<open>db.commit()\<close> it still refreshes the new row and validates
  the response; a fault there is not caught, and the request is stored. The response is built from the objects \<^verbatim>\<open>my_slot\<close> and
  \<^verbatim>\<open>their_slot\<close> as they are after the two assignments (on this path they are two
  different rows, their owners differ).
\<close>

definition request_swap ::
  "fault \<Rightarrow> uuid \<Rightarrow> datetime \<Rightarrow> User \<Rightarrow> SwapRequestCreate \<Rightarrow> database
     \<Rightarrow> (HTTPException + SwapRequestResponse) \<times> database" where
  "request_swap fault new_id now current_user payload db =
     (case query_event db (my_slot_id payload) of
        None \<Rightarrow> (Inl (HTTPException 404 ''My slot not found''), db)
      | Some my_slot \<Rightarrow>
     (case query_event db (their_slot_id payload) of
        None \<Rightarrow> (Inl (HTTPException 404 ''Their slot not found''), db)
      | Some their_slot \<Rightarrow>
        if owner_id my_slot \<noteq> user_id current_user then
          (Inl (HTTPException 403 ''You do not own the offered slot''), db)
        else if owner_id their_slot = user_id current_user then
          (Inl (HTTPException 400 ''Cannot request swap with your own slot''), db)
        else if status my_slot \<noteq> SWAPPABLE then
          (Inl (HTTPException 400 ''Your slot is not swappable''), db)
        else if status their_slot \<noteq> SWAPPABLE then
          (Inl (HTTPException 400 ''Requested slot is not swappable''), db)
        else
          let swap = \<lparr>swap_id = new_id,
                      requester_id = user_id current_user,
                      offered_event_id = event_id my_slot,
                      requested_event_id = event_id their_slot,
                      swap_status = PENDING,
                      created_at = now,
                      updated_at = now\<rparr>;
              s1 = set_event_status (event_id my_slot) SWAP_PENDING db;
              s2 = set_event_status (event_id their_slot) SWAP_PENDING s1;
              s3 = add_swap swap s2
          in (case fault of
                Commit_fault \<Rightarrow> (Inl unhandled, db)
              | Refresh_fault \<Rightarrow> (Inl unhandled, s3)
              | Validation_fault \<Rightarrow> (Inl unhandled, s3)
              | No_fault \<Rightarrow>
                  (Inr (swap_response swap (my_slot\<lparr>status := SWAP_PENDING\<rparr>)
                          (their_slot\<lparr>status := SWAP_PENDING\<rparr>) current_user), s3))))"

subsection \<open>\<^verbatim>\<open>respond_to_swap\<close>\<close>

text \<open>
  The rejecting branch reads each slot's status at the moment of its own test, the
  accepting branch reads both owners before it writes either. \<^verbatim>\<open>db.commit()\<close> and
  \<^verbatim>\<open>db.refresh(swap)\<close> are inside one \<^verbatim>\<open>try\<close>: a fault of either ends in the handler's own
  500 after \<^verbatim>\<open>db.rollback()\<close>, which undoes nothing once the commit has gone through. After
  the \<^verbatim>\<open>try\<close> the handler loads the requester and both events again and validates the
  response; a missing row or a rejected address raises, uncaught, when the tables are
  already committed.
\<close>

definition revert_status :: "uuid \<Rightarrow> database \<Rightarrow> database" where
  "revert_status i s =
     (if map_option status (query_event s i) = Some SWAP_PENDING
      then set_event_status i SWAPPABLE s else s)"

definition respond_to_swap ::
  "fault \<Rightarrow> datetime \<Rightarrow> User \<Rightarrow> uuid \<Rightarrow> SwapResponseAction \<Rightarrow> database
     \<Rightarrow> (HTTPException + SwapRequestResponse) \<times> database" where
  "respond_to_swap fault now current_user request_id action db =
     (case query_swap db request_id of
        None \<Rightarrow> (Inl (HTTPException 404 ''Swap request not found''), db)
      | Some swap \<Rightarrow>
     (case (query_event db (offered_event_id swap), query_event db (requested_event_id swap)) of
        (Some offered_event, Some requested_event) \<Rightarrow>
          if owner_id requested_event \<noteq> user_id current_user then
            (Inl (HTTPException 403 ''Not authorized to respond to this request''), db)
          else if swap_status swap \<noteq> PENDING then
            (Inl (HTTPException 400 ''Swap request already processed''), db)
          else
            let s =
              (if \<not> accepted action then
                 let s1 = set_swap_status (swap_id swap) REJECTED now db;
                     s2 = revert_status (event_id offered_event) s1;
                     s3 = revert_status (event_id requested_event) s2
                 in s3
               else
                 let s1 = set_swap_status (swap_id swap) ACCEPTED now db;
                     original_requested_owner = owner_id requested_event;
                     s2 = set_event_owner (event_id requested_event) (owner_id offered_event) s1;
                     s3 = set_event_owner (event_id offered_event) original_requested_owner s2;
                     s4 = set_event_status (event_id requested_event) BUSY s3;
                     s5 = set_event_status (event_id offered_event) BUSY s4
                 in s5)
            in (case fault of
                  Commit_fault \<Rightarrow>
                    (Inl (HTTPException 500 ''Failed to process swap response''), db)
                | Refresh_fault \<Rightarrow>
                    (Inl (HTTPException 500 ''Failed to process swap response''), s)
                | _ \<Rightarrow>
                    (case (query_swap s (swap_id swap),
                           query_user s (requester_id swap),
                           query_event s (offered_event_id swap),
                           query_event s (requested_event_id swap)) of
                       (Some swap', Some requester, Some offered_ev, Some requested_ev) \<Rightarrow>
                         if fault = Validation_fault then (Inl unhandled, s)
                         else (Inr (swap_response swap' offered_ev requested_ev requester), s)
                     | _ \<Rightarrow> (Inl unhandled, s)))
      | _ \<Rightarrow> (Inl (HTTPException 404 ''Related events not found''), db)))"

subsection \<open>The three listings\<close>

text \<open>
  The listings are single \<^verbatim>\<open>select\<close> statements. \<^verbatim>\<open>join\<close> is SQL's inner join: every
  pair of a left row and a right row that satisfies the \<^verbatim>\<open>ON\<close> condition, so a left row
  without a partner disappears and one with two partners appears twice. \<^verbatim>\<open>order_by\<close> is a
  sort on the key; rows with equal keys stay in table order (SQL leaves their order open).
  Descending order sorts on the negated instant.
\<close>

definition join :: "'a list \<Rightarrow> 'b list \<Rightarrow> ('a \<Rightarrow> 'b \<Rightarrow> bool) \<Rightarrow> ('a \<times> 'b) list" where
  "join xs ys on = concat (map (\<lambda>x. map (Pair x) (filter (on x) ys)) xs)"

definition list_swappable_slots :: "User \<Rightarrow> database \<Rightarrow> SwappableEventResponse list \<times> database" where
  "list_swappable_slots current_user db =
     (let rows =
            sort_key (\<lambda>(event, owner_name). start_time event)
              (filter (\<lambda>(event, owner_name).
                         status event = SWAPPABLE \<and> owner_id event \<noteq> user_id current_user)
                 (map (\<lambda>(event, user). (event, name user))
                    (join (events db) (users db) (\<lambda>event user. owner_id event = user_id user))))
      in (map (\<lambda>(event, owner_name).
                 \<lparr>event_id = event_id event,
                  title = title event,
                  start_time = start_time event,
                  end_time = end_time event,
                  status = status event,
                  owner_id = owner_id event,
                  owner_name = owner_name\<rparr>) rows,
          db))"

definition swap_rows :: "database \<Rightarrow> (((SwapRequest \<times> Event) \<times> Event) \<times> User) list" where
  "swap_rows db =
     join
       (join
          (join (swap_requests db) (events db)
             (\<lambda>swap offered_evt. offered_event_id swap = event_id offered_evt))
          (events db)
          (\<lambda>(swap, offered_evt) requested_evt. requested_event_id swap = event_id requested_evt))
       (users db)
       (\<lambda>((swap, offered_evt), requested_evt) user. requester_id swap = user_id user)"

definition list_incoming_requests :: "User \<Rightarrow> database \<Rightarrow> SwapRequestResponse list \<times> database" where
  "list_incoming_requests current_user db =
     (let rows =
            sort_key (\<lambda>(((swap, offered_event), requested_event), requester). - created_at swap)
              (filter (\<lambda>(((swap, offered_event), requested_event), requester).
                         swap_status swap = PENDING
                         \<and> owner_id requested_event = user_id current_user)
                 (swap_rows db))
      in (map (\<lambda>(((swap, offered_event), requested_event), requester).
                 swap_response swap offered_event requested_event requester) rows,
          db))"

definition list_outgoing_requests :: "User \<Rightarrow> database \<Rightarrow> SwapRequestResponse list \<times> database" where
  "list_outgoing_requests current_user db =
     (let rows =
            sort_key (\<lambda>(((swap, offered_event), requested_event), requester). - created_at swap)
              (filter (\<lambda>(((swap, offered_event), requested_event), requester).
                         requester_id swap = user_id current_user)
                 (swap_rows db))
      in (map (\<lambda>(((swap, offered_event), requested_event), requester).
                 swap_response swap offered_event requested_event requester) rows,
          db))"

section \<open>The events router\<close>

text \<open>
  The single-event handlers look the row up by primary key \<^emph>\<open>and\<close> owner in one
  filter. \<^verbatim>\<open>create_event\<close> and \<^verbatim>\<open>update_event\<close> refresh the row after their commit;
  \<^verbatim>\<open>delete_event\<close> reads nothing after it.
\<close>

definition query_owned_event :: "database \<Rightarrow> uuid \<Rightarrow> uuid \<Rightarrow> Event option" where
  "query_owned_event db i ow = find (\<lambda>e. event_id e = i \<and> owner_id e = ow) (events db)"

definition write_event :: "Event \<Rightarrow> database \<Rightarrow> database" where
  "write_event ev db =
     db\<lparr>events := map (\<lambda>e. if event_id e = event_id ev then ev else e) (events db)\<rparr>"

definition create_event ::
  "fault \<Rightarrow> uuid \<Rightarrow> User \<Rightarrow> EventCreate \<Rightarrow> database \<Rightarrow> (HTTPException + Event) \<times> database" where
  "create_event fault new_id current_user payload db =
     (let event = \<lparr>event_id = new_id,
                    title = create_title payload,
                    start_time = create_start_time payload,
                    end_time = create_end_time payload,
                    status = BUSY,
                    owner_id = user_id current_user\<rparr>
      in (case fault of
            Commit_fault \<Rightarrow> (Inl unhandled, db)
          | Refresh_fault \<Rightarrow> (Inl unhandled, add_event event db)
          | _ \<Rightarrow> (Inr (model_validate_event event), add_event event db)))"

definition list_events :: "User \<Rightarrow> database \<Rightarrow> Event list \<times> database" where
  "list_events current_user db =
     (sort_key start_time (filter (\<lambda>e. owner_id e = user_id current_user) (events db)), db)"

definition get_event :: "User \<Rightarrow> uuid \<Rightarrow> database \<Rightarrow> (HTTPException + Event) \<times> database" where
  "get_event current_user eid db =
     (case query_owned_event db eid (user_id current_user) of
        None \<Rightarrow> (Inl (HTTPException 404 ''Event not found''), db)
      | Some event \<Rightarrow> (Inr (model_validate_event event), db))"

definition update_event ::
  "fault \<Rightarrow> User \<Rightarrow> uuid \<Rightarrow> EventUpdate \<Rightarrow> database \<Rightarrow> (HTTPException + Event) \<times> database" where
  "update_event fault current_user eid payload db =
     (case query_owned_event db eid (user_id current_user) of
        None \<Rightarrow> (Inl (HTTPException 404 ''Event not found''), db)
      | Some event \<Rightarrow>
          let e1 = (case update_title payload of None \<Rightarrow> event | Some t \<Rightarrow> event\<lparr>title := t\<rparr>);
              e2 = (case update_start_time payload of None \<Rightarrow> e1 | Some t \<Rightarrow> e1\<lparr>start_time := t\<rparr>);
              e3 = (case update_end_time payload of None \<Rightarrow> e2 | Some t \<Rightarrow> e2\<lparr>end_time := t\<rparr>);
              e4 = (case update_status payload of None \<Rightarrow> e3 | Some st \<Rightarrow> e3\<lparr>status := st\<rparr>)
          in (case fault of
                Commit_fault \<Rightarrow> (Inl unhandled, db)
              | Refresh_fault \<Rightarrow> (Inl unhandled, write_event e4 db)
              | _ \<Rightarrow> (Inr (model_validate_event e4), write_event e4 db)))"

definition delete_event ::
  "fault \<Rightarrow> User \<Rightarrow> uuid \<Rightarrow> database \<Rightarrow> (HTTPException + unit) \<times> database" where
  "delete_event fault current_user eid db =
     (case query_owned_event db eid (user_id current_user) of
        None \<Rightarrow> (Inl (HTTPException 404 ''Event not found''), db)
      | Some event \<Rightarrow>
          (case fault of
             Commit_fault \<Rightarrow> (Inl unhandled, db)
           | _ \<Rightarrow> (Inr (), delete_row (event_id event) db)))"

subsection \<open>The sessions of the swap handlers before their commit\<close>

text \<open>
  The three writes of \<^verbatim>\<open>request_swap\<close> on their own, and the assignments of the two
  branches of \<^verbatim>\<open>respond_to_swap\<close> for a request R with offered slot A and requested slot
  B; \<open>request_swap_tables\<close> and \<open>respond_to_swap_unfold\<close> below show that the handlers
  commit exactly these.
\<close>

definition request_updates ::
  "uuid \<Rightarrow> datetime \<Rightarrow> User \<Rightarrow> SwapRequestCreate \<Rightarrow> database \<Rightarrow> database" where
  "request_updates new_id now u payload db =
     add_swap
       \<lparr>swap_id = new_id, requester_id = user_id u, offered_event_id = my_slot_id payload,
        requested_event_id = their_slot_id payload, swap_status = PENDING,
        created_at = now, updated_at = now\<rparr>
       (set_event_status (their_slot_id payload) SWAP_PENDING
          (set_event_status (my_slot_id payload) SWAP_PENDING db))"

definition respond_updates ::
  "datetime \<Rightarrow> SwapRequest \<Rightarrow> Event \<Rightarrow> Event \<Rightarrow> bool \<Rightarrow> database \<Rightarrow> database" where
  "respond_updates now R A B acc db =
     (if \<not> acc then
        revert_status (event_id B) (revert_status (event_id A)
          (set_swap_status (swap_id R) REJECTED now db))
      else
        set_event_status (event_id A) BUSY (set_event_status (event_id B) BUSY
          (set_event_owner (event_id A) (owner_id B) (set_event_owner (event_id B) (owner_id A)
            (set_swap_status (swap_id R) ACCEPTED now db)))))"

section \<open>Sequences of calls\<close>

text \<open>
  The public operations that change the tables, as values, and the tables after a
  sequence of them. Each call carries what the environment supplies to it: the fault it
  meets, the generated key, the clock, and the authenticated user.
\<close>

datatype operation =
    CreateEvent fault uuid User EventCreate
  | UpdateEvent fault User uuid EventUpdate
  | DeleteEvent fault User uuid
  | RequestSwap fault uuid datetime User SwapRequestCreate
  | RespondToSwap fault datetime User uuid SwapResponseAction

fun apply_operation :: "operation \<Rightarrow> database \<Rightarrow> database" where
  "apply_operation (CreateEvent f new_id u p) db = snd (create_event f new_id u p db)"
| "apply_operation (UpdateEvent f u eid p) db = snd (update_event f u eid p db)"
| "apply_operation (DeleteEvent f u eid) db = snd (delete_event f u eid db)"
| "apply_operation (RequestSwap f new_id now u p) db = snd (request_swap f new_id now u p db)"
| "apply_operation (RespondToSwap f now u rid a) db = snd (respond_to_swap f now u rid a db)"

definition run :: "operation list \<Rightarrow> database \<Rightarrow> database" where
  "run ops db = fold apply_operation ops db"

text \<open>The PENDING requests that have a slot as their offered or requested side.\<close>

definition pending_references :: "database \<Rightarrow> uuid \<Rightarrow> SwapRequest list" where
  "pending_references db i =
     filter (\<lambda>r. swap_status r = PENDING \<and> (offered_event_id r = i \<or> requested_event_id r = i))
       (swap_requests db)"

section \<open>Constraints of the schema\<close>

text \<open>
  The models declare a primary key on every \<^verbatim>\<open>id\<close> column and foreign keys from
  \<^verbatim>\<open>events.owner_id\<close> and \<^verbatim>\<open>swap_requests.requester_id\<close> to \<^verbatim>\<open>users.id\<close> and from the two
  slot columns of a request to \<^verbatim>\<open>events.id\<close>. The store keeps them; they are stated here as
  predicates on the tables.
\<close>

definition primary_keys :: "database \<Rightarrow> bool" where
  "primary_keys db \<longleftrightarrow>
     distinct (map user_id (users db)) \<and> distinct (map event_id (events db))
     \<and> distinct (map swap_id (swap_requests db))"

definition foreign_keys :: "database \<Rightarrow> bool" where
  "foreign_keys db \<longleftrightarrow>
     list_all (\<lambda>e. query_user db (owner_id e) \<noteq> None) (events db)
     \<and> list_all (\<lambda>r. query_user db (requester_id r) \<noteq> None
                     \<and> query_event db (offered_event_id r) \<noteq> None
                     \<and> query_event db (requested_event_id r) \<noteq> None) (swap_requests db)"

section \<open>Invariants of the negotiation\<close>

text \<open>
  A request refers to a slot when the slot is its offered or its requested side. The
  invariant of the negotiation: every row of a slot that a PENDING request refers to has
  status SWAP_PENDING, and no slot is referred to by two PENDING requests.
\<close>

definition references :: "SwapRequest \<Rightarrow> uuid \<Rightarrow> bool" where
  "references r i \<longleftrightarrow> offered_event_id r = i \<or> requested_event_id r = i"

definition negotiation_invariant :: "database \<Rightarrow> bool" where
  "negotiation_invariant db \<longleftrightarrow>
     (\<forall>r\<in>set (swap_requests db). swap_status r = PENDING \<longrightarrow>
        (\<forall>e\<in>set (events db). references r (event_id e) \<longrightarrow> status e = SWAP_PENDING))
     \<and> (\<forall>i. length (pending_references db i) \<le> 1)"

text \<open>
  Two kinds of call can break the invariant, and \<open>guarded\<close> excludes them: an
  \<^verbatim>\<open>update_event\<close> that writes another status over SWAP_PENDING, and a
  \<^verbatim>\<open>create_event\<close> whose generated key is one that a PENDING request already refers to
  (which a fresh UUID never is).
\<close>

fun guarded :: "operation \<Rightarrow> database \<Rightarrow> bool" where
  "guarded (CreateEvent f new_id u p) db \<longleftrightarrow>
     (\<forall>r\<in>set (swap_requests db). swap_status r = PENDING \<longrightarrow> \<not> references r new_id)"
| "guarded (UpdateEvent f u eid p) db \<longleftrightarrow>
     (case query_owned_event db eid (user_id u) of
        None \<Rightarrow> True
      | Some e \<Rightarrow>
          status e = SWAP_PENDING \<longrightarrow> update_status p = None \<or> update_status p = Some SWAP_PENDING)"
| "guarded _ db \<longleftrightarrow> True"

fun guarded_run :: "operation list \<Rightarrow> database \<Rightarrow> bool" where
  "guarded_run [] db \<longleftrightarrow> True"
| "guarded_run (x # xs) db \<longleftrightarrow> guarded x db \<and> guarded_run xs (apply_operation x db)"

text \<open>An update of the tables that leaves every slot outside \<open>I\<close> as it is.\<close>

definition touches_only :: "uuid set \<Rightarrow> database \<Rightarrow> database \<Rightarrow> bool" where
  "touches_only I db db' \<longleftrightarrow>
     (\<forall>e'\<in>set (events db'). \<exists>e\<in>set (events db).
         event_id e' = event_id e \<and> (event_id e \<notin> I \<longrightarrow> e' = e))"

text \<open>
  The foreign key from \<^verbatim>\<open>swap_requests.requester_id\<close> to \<^verbatim>\<open>users.id\<close> on its own, and the
  authenticated user of a call (\<^verbatim>\<open>get_current_user\<close> returns a row of \<^verbatim>\<open>users\<close>).
\<close>

definition requesters_registered :: "database \<Rightarrow> bool" where
  "requesters_registered db \<longleftrightarrow>
     list_all (\<lambda>r. query_user db (requester_id r) \<noteq> None) (swap_requests db)"

fun acting_user :: "operation \<Rightarrow> User" where
  "acting_user (CreateEvent f new_id u p) = u"
| "acting_user (UpdateEvent f u eid p) = u"
| "acting_user (DeleteEvent f u eid) = u"
| "acting_user (RequestSwap f new_id now u p) = u"
| "acting_user (RespondToSwap f now u rid a) = u"

section \<open>Example tables\<close>

definition alice :: User where
  "alice = \<lparr>user_id = 1, email = ''alice@example.com'', password_hash = ''h1'', name = ''Alice''\<rparr>"

definition bob :: User where
  "bob = \<lparr>user_id = 2, email = ''bob@example.com'', password_hash = ''h2'', name = ''Bob''\<rparr>"

definition carol :: User where
  "carol = \<lparr>user_id = 3, email = ''carol@example.com'', password_hash = ''h3'', name = ''Carol''\<rparr>"

definition slot :: "uuid \<Rightarrow> datetime \<Rightarrow> EventStatusEnum \<Rightarrow> uuid \<Rightarrow> Event" where
  "slot i t s ow =
     \<lparr>event_id = i, title = ''Slot'', start_time = t, end_time = t + 1, status = s, owner_id = ow\<rparr>"

definition request ::
  "uuid \<Rightarrow> uuid \<Rightarrow> uuid \<Rightarrow> uuid \<Rightarrow> SwapRequestStatusEnum \<Rightarrow> datetime \<Rightarrow> SwapRequest" where
  "request i u a b s t =
     \<lparr>swap_id = i, requester_id = u, offered_event_id = a, requested_event_id = b,
      swap_status = s, created_at = t, updated_at = t\<rparr>"

text \<open>Three users and no slots: where every history starts.\<close>

definition initial_db :: database where
  "initial_db = \<lparr>users = [alice, bob, carol], events = [], swap_requests = []\<rparr>"

text \<open>Alice has offered her slot 10 for Bob's slot 20; Carol's slot 30 is on the market.\<close>

definition negotiating_db :: database where
  "negotiating_db =
     \<lparr>users = [alice, bob, carol],
      events = [slot 10 8 SWAP_PENDING 1, slot 20 6 SWAP_PENDING 2, slot 30 7 SWAPPABLE 3],
      swap_requests = [request 100 1 10 20 PENDING 5]\<rparr>"

text \<open>All three users have a slot on the market; Bob also has a busy one.\<close>

definition market_db :: database where
  "market_db =
     \<lparr>users = [alice, bob, carol],
      events = [slot 10 8 SWAPPABLE 1, slot 20 6 SWAPPABLE 2, slot 30 7 SWAPPABLE 3,
                slot 40 2 BUSY 2],
      swap_requests = []\<rparr>"

text \<open>The negotiation of \<open>negotiating_db\<close> after Bob accepted it at instant 9.\<close>

definition settled_db :: database where
  "settled_db =
     \<lparr>users = [alice, bob, carol],
      events = [slot 10 8 BUSY 2, slot 20 6 BUSY 1, slot 30 7 SWAPPABLE 3],
      swap_requests = [request 100 1 10 20 ACCEPTED 5\<lparr>updated_at := 9\<rparr>]\<rparr>"

text \<open>The same negotiation, after Alice set her offered slot back to BUSY herself.\<close>

definition edited_db :: database where
  "edited_db =
     \<lparr>users = [alice, bob, carol],
      events = [slot 10 8 BUSY 1, slot 20 6 SWAP_PENDING 2, slot 30 7 SWAPPABLE 3],
      swap_requests = [request 100 1 10 20 PENDING 5]\<rparr>"

text \<open>A history of nine calls: three slots are created and put on the market, Alice offers
  hers for Bob's, Bob puts his slot on the market again, and Carol offers hers for it.\<close>

definition make_swappable :: EventUpdate where
  "make_swappable = \<lparr>update_title = None, update_start_time = None, update_end_time = None,
     update_status = Some SWAPPABLE\<rparr>"

definition new_slot :: "datetime \<Rightarrow> EventCreate" where
  "new_slot t = \<lparr>create_title = ''Slot'', create_start_time = t, create_end_time = t + 1\<rparr>"

text \<open>Two open negotiations for slots of Bob, and one that he rejected.\<close>

definition history_db :: database where
  "history_db =
     \<lparr>users = [alice, bob, carol],
      events = [slot 10 8 SWAP_PENDING 1, slot 20 6 SWAP_PENDING 2, slot 30 7 SWAP_PENDING 3,
                slot 40 2 SWAP_PENDING 2, slot 50 3 SWAPPABLE 1, slot 60 4 SWAPPABLE 2],
      swap_requests = [request 100 1 10 20 PENDING 5, request 102 1 50 60 REJECTED 6,
                       request 101 3 30 40 PENDING 7]\<rparr>"

definition double_booking :: "operation list" where
  "double_booking =
     [CreateEvent No_fault 10 alice (new_slot 8),
      CreateEvent No_fault 20 bob (new_slot 6),
      CreateEvent No_fault 30 carol (new_slot 7),
      UpdateEvent No_fault alice 10 make_swappable,
      UpdateEvent No_fault bob 20 make_swappable,
      UpdateEvent No_fault carol 30 make_swappable,
      RequestSwap No_fault 100 5 alice \<lparr>my_slot_id = 10, their_slot_id = 20\<rparr>,
      UpdateEvent No_fault bob 20 make_swappable,
      RequestSwap No_fault 101 6 carol \<lparr>my_slot_id = 30, their_slot_id = 20\<rparr>]"

section \<open>Queries after updates\<close>

lemmas example_defs = alice_def bob_def carol_def slot_def request_def

lemmas handler_defs = query_user_def query_event_def query_swap_def set_event_status_def
  set_event_owner_def set_swap_status_def add_swap_def add_event_def delete_row_def
  revert_status_def swap_response_def model_validate_event_def model_validate_user_def
  unhandled_def query_owned_event_def write_event_def

lemma run_Cons: "run (x # xs) db = run xs (apply_operation x db)"
  by (simp add: run_def)

lemma run_Nil: "run [] db = db"
  by (simp add: run_def)

lemma find_map_same:
  "(\<And>x. P (f x) = P x) \<Longrightarrow> find P (map f xs) = map_option f (find P xs)"
  by (induction xs) auto

lemma query_event_id: "query_event db i = Some e \<Longrightarrow> event_id e = i"
  by (auto simp: query_event_def find_Some_iff)

lemma query_swap_id: "query_swap db i = Some r \<Longrightarrow> swap_id r = i"
  by (auto simp: query_swap_def find_Some_iff)

lemma query_event_set_event_status:
  "query_event (set_event_status j s db) i =
     (if i = j then map_option (\<lambda>e. e\<lparr>status := s\<rparr>) (query_event db i) else query_event db i)"
proof -
  have "query_event (set_event_status j s db) i =
          map_option (\<lambda>e. if event_id e = j then e\<lparr>status := s\<rparr> else e) (query_event db i)"
    unfolding query_event_def set_event_status_def by (simp add: find_map_same)
  then show ?thesis
    by (cases "query_event db i") (auto dest: query_event_id)
qed

lemma query_event_set_event_owner:
  "query_event (set_event_owner j ow db) i =
     (if i = j then map_option (\<lambda>e. e\<lparr>owner_id := ow\<rparr>) (query_event db i) else query_event db i)"
proof -
  have "query_event (set_event_owner j ow db) i =
          map_option (\<lambda>e. if event_id e = j then e\<lparr>owner_id := ow\<rparr> else e) (query_event db i)"
    unfolding query_event_def set_event_owner_def by (simp add: find_map_same)
  then show ?thesis
    by (cases "query_event db i") (auto dest: query_event_id)
qed

lemma query_event_set_swap_status [simp]:
  "query_event (set_swap_status j s now db) i = query_event db i"
  by (simp add: query_event_def set_swap_status_def)

lemma query_swap_set_swap_status:
  "query_swap (set_swap_status j s now db) i =
     (if i = j then map_option (\<lambda>r. r\<lparr>swap_status := s, updated_at := now\<rparr>) (query_swap db i)
      else query_swap db i)"
proof -
  have "query_swap (set_swap_status j s now db) i =
          map_option (\<lambda>r. if swap_id r = j then r\<lparr>swap_status := s, updated_at := now\<rparr> else r)
            (query_swap db i)"
    unfolding query_swap_def set_swap_status_def by (simp add: find_map_same)
  then show ?thesis
    by (cases "query_swap db i") (auto dest: query_swap_id)
qed

lemma query_swap_set_event [simp]:
  "query_swap (set_event_status j s db) i = query_swap db i"
  "query_swap (set_event_owner j ow db) i = query_swap db i"
  by (simp_all add: query_swap_def set_event_status_def set_event_owner_def)

lemma query_user_set [simp]:
  "query_user (set_event_status j s db) i = query_user db i"
  "query_user (set_event_owner j ow db) i = query_user db i"
  "query_user (set_swap_status j st now db) i = query_user db i"
  by (simp_all add: query_user_def set_event_status_def set_event_owner_def set_swap_status_def)

lemma query_event_revert_status:
  "query_event (revert_status j db) i =
     (if i = j then map_option (\<lambda>e. if status e = SWAP_PENDING then e\<lparr>status := SWAPPABLE\<rparr> else e)
                      (query_event db i)
      else query_event db i)"
  by (cases "query_event db j") (auto simp: revert_status_def query_event_set_event_status)

lemma query_swap_revert [simp]: "query_swap (revert_status j db) i = query_swap db i"
  by (simp add: revert_status_def)

lemma query_user_revert [simp]: "query_user (revert_status j db) i = query_user db i"
  by (simp add: revert_status_def)

lemmas query_after_updates =
  query_event_set_event_status query_event_set_event_owner query_swap_set_swap_status
  query_event_revert_status


lemma query_swap_mem: "query_swap db i = Some r \<Longrightarrow> r \<in> set (swap_requests db)"
  by (auto simp: query_swap_def find_Some_iff)

lemma request_swap_tables:
  "snd (request_swap fault new_id now u payload db) = db
   \<or> (\<exists>a b. query_event db (my_slot_id payload) = Some a \<and> status a = SWAPPABLE
        \<and> query_event db (their_slot_id payload) = Some b \<and> status b = SWAPPABLE
        \<and> fault \<noteq> Commit_fault
        \<and> snd (request_swap fault new_id now u payload db)
            = request_updates new_id now u payload db)"
proof (cases "query_event db (my_slot_id payload)")
  case None
  then show ?thesis by (simp add: request_swap_def)
next
  case a: (Some a)
  show ?thesis
  proof (cases "query_event db (their_slot_id payload)")
    case None
    with a show ?thesis by (simp add: request_swap_def)
  next
    case b: (Some b)
    have ids: "event_id a = my_slot_id payload" "event_id b = their_slot_id payload"
      using a b by (auto dest: query_event_id)
    show ?thesis
      by (cases fault) (simp_all add: request_swap_def a b ids request_updates_def Let_def)
  qed
qed

lemma request_swap_failure:
  assumes "request_swap fault new_id now u payload db = (Inl e, db')"
    and "status_code e \<noteq> 500 \<or> fault = Commit_fault"
  shows "db' = db"
  using assms
  by (cases fault)
    (auto simp: request_swap_def Let_def unhandled_def split: option.splits if_splits)

lemma respond_to_swap_unfold:
  assumes "query_swap db request_id = Some R"
    and "query_event db (offered_event_id R) = Some A"
    and "query_event db (requested_event_id R) = Some B"
  shows "respond_to_swap fault now u request_id action db =
     (if owner_id B \<noteq> user_id u then
        (Inl (HTTPException 403 ''Not authorized to respond to this request''), db)
      else if swap_status R \<noteq> PENDING then
        (Inl (HTTPException 400 ''Swap request already processed''), db)
      else if fault = Commit_fault then
        (Inl (HTTPException 500 ''Failed to process swap response''), db)
      else if fault = Refresh_fault then
        (Inl (HTTPException 500 ''Failed to process swap response''),
         respond_updates now R A B (accepted action) db)
      else
        (case (query_swap (respond_updates now R A B (accepted action) db) (swap_id R),
               query_user (respond_updates now R A B (accepted action) db) (requester_id R),
               query_event (respond_updates now R A B (accepted action) db) (offered_event_id R),
               query_event (respond_updates now R A B (accepted action) db) (requested_event_id R)) of
           (Some swap', Some requester, Some offered_ev, Some requested_ev) \<Rightarrow>
             if fault = Validation_fault
             then (Inl unhandled, respond_updates now R A B (accepted action) db)
             else (Inr (swap_response swap' offered_ev requested_ev requester),
                   respond_updates now R A B (accepted action) db)
         | _ \<Rightarrow> (Inl unhandled, respond_updates now R A B (accepted action) db)))"
  using assms unfolding respond_to_swap_def respond_updates_def Let_def
  by (cases fault) simp_all

lemma respond_updates_queries:
  assumes R: "query_swap db request_id = Some R"
    and A: "query_event db (offered_event_id R) = Some A"
    and B: "query_event db (requested_event_id R) = Some B"
  shows "query_swap (respond_updates now R A B acc db) (swap_id R) \<noteq> None"
    and "query_user (respond_updates now R A B acc db) i = query_user db i"
    and "query_event (respond_updates now R A B acc db) (offered_event_id R) \<noteq> None"
    and "query_event (respond_updates now R A B acc db) (requested_event_id R) \<noteq> None"
proof -
  have ids: "swap_id R = request_id" "event_id A = offered_event_id R"
    "event_id B = requested_event_id R"
    using R A B by (auto dest: query_swap_id query_event_id)
  show "query_swap (respond_updates now R A B acc db) (swap_id R) \<noteq> None"
    using R by (simp add: respond_updates_def ids query_swap_set_swap_status)
  show "query_user (respond_updates now R A B acc db) i = query_user db i"
    by (simp add: respond_updates_def)
  show "query_event (respond_updates now R A B acc db) (offered_event_id R) \<noteq> None"
    using A B by (simp add: respond_updates_def ids query_after_updates)
  show "query_event (respond_updates now R A B acc db) (requested_event_id R) \<noteq> None"
    using A B by (simp add: respond_updates_def ids query_after_updates)
qed

lemma respond_to_swap_tables:
  "snd (respond_to_swap fault now u request_id action db) = db
   \<or> (\<exists>R A B. query_swap db request_id = Some R \<and> swap_status R = PENDING
        \<and> query_event db (offered_event_id R) = Some A
        \<and> query_event db (requested_event_id R) = Some B
        \<and> fault \<noteq> Commit_fault
        \<and> snd (respond_to_swap fault now u request_id action db)
            = respond_updates now R A B (accepted action) db)"
proof (cases "query_swap db request_id")
  case None
  then show ?thesis by (simp add: respond_to_swap_def)
next
  case (Some R)
  show ?thesis
  proof (cases "query_event db (offered_event_id R)")
    case None
    with Some show ?thesis by (simp add: respond_to_swap_def)
  next
    case A: (Some A)
    show ?thesis
    proof (cases "query_event db (requested_event_id R)")
      case None
      with Some A show ?thesis by (simp add: respond_to_swap_def)
    next
      case B: (Some B)
      show ?thesis
        unfolding respond_to_swap_unfold [OF Some A B] using Some A B
        by (simp split: option.splits)
    qed
  qed
qed

lemma respond_to_swap_failure:
  assumes fail: "respond_to_swap fault now u request_id action db = (Inl e, db')"
    and e: "status_code e \<noteq> 500 \<or> fault = Commit_fault"
  shows "db' = db"
proof (cases "query_swap db request_id")
  case None
  with fail show ?thesis by (simp add: respond_to_swap_def)
next
  case (Some R)
  show ?thesis
  proof (cases "query_event db (offered_event_id R)")
    case None
    with fail Some show ?thesis by (simp add: respond_to_swap_def)
  next
    case A: (Some A)
    show ?thesis
    proof (cases "query_event db (requested_event_id R)")
      case None
      with fail Some A show ?thesis by (simp add: respond_to_swap_def)
    next
      case B: (Some B)
      from fail e show ?thesis
        unfolding respond_to_swap_unfold [OF Some A B]
        by (auto simp: unhandled_def split: if_splits option.splits)
    qed
  qed
qed

lemma query_event_two_reverts:
  "query_event (revert_status j (revert_status k s)) i =
     (if i = j \<or> i = k
      then map_option (\<lambda>e. if status e = SWAP_PENDING then e\<lparr>status := SWAPPABLE\<rparr> else e)
             (query_event s i)
      else query_event s i)"
proof -
  define f where "f = (\<lambda>e::Event. if status e = SWAP_PENDING then e\<lparr>status := SWAPPABLE\<rparr> else e)"
  have ff: "f (f e) = f e" for e by (simp add: f_def)
  have r: "query_event (revert_status j' s') i' =
             (if i' = j' then map_option f (query_event s' i') else query_event s' i')" for j' s' i'
    unfolding f_def by (rule query_event_revert_status)
  have "query_event (revert_status j (revert_status k s)) i =
          (if i = j \<or> i = k then map_option f (query_event s i) else query_event s i)"
    by (simp add: r option.map_comp o_def ff)
  then show ?thesis unfolding f_def .
qed

section \<open>Answering a request\<close>

text \<open>
  C1. Let R be a PENDING request; its offered slot A is owned by the requester X and is
  SWAP_PENDING, its requested slot B is owned by Y and is SWAP_PENDING. When
  \<^verbatim>\<open>respond_to_swap\<close> by Y succeeds, then after accepting A is owned by Y, B by X, both
  are BUSY and R is ACCEPTED; after rejecting A is still owned by X and B by Y, both
  are SWAPPABLE and R is REJECTED. Nothing else of the three rows changes, except the
  request's \<^verbatim>\<open>updated_at\<close>.
\<close>

theorem respond_to_swap_accept_reject:
  assumes R: "query_swap db request_id = Some R" "swap_status R = PENDING" "requester_id R = X"
    and A: "query_event db (offered_event_id R) = Some A" "owner_id A = X" "status A = SWAP_PENDING"
    and B: "query_event db (requested_event_id R) = Some B" "owner_id B = user_id Y"
           "status B = SWAP_PENDING"
    and ok: "respond_to_swap fault now Y request_id action db = (Inr resp, db')"
  shows "query_swap db' request_id =
           Some (R\<lparr>swap_status := (if accepted action then ACCEPTED else REJECTED), updated_at := now\<rparr>)
         \<and> query_event db' (offered_event_id R) =
           Some (if accepted action then A\<lparr>owner_id := user_id Y, status := BUSY\<rparr>
                 else A\<lparr>status := SWAPPABLE\<rparr>)
         \<and> query_event db' (requested_event_id R) =
           Some (if accepted action then B\<lparr>owner_id := X, status := BUSY\<rparr>
                 else B\<lparr>status := SWAPPABLE\<rparr>)"
proof -
  have ids: "swap_id R = request_id" "event_id A = offered_event_id R"
    "event_id B = requested_event_id R"
    using R(1) A(1) B(1) by (auto dest: query_swap_id query_event_id)
  show ?thesis
  proof (cases "accepted action")
    case True
    with ok R A B ids have db': "db' =
        set_event_status (offered_event_id R) BUSY
          (set_event_status (requested_event_id R) BUSY
            (set_event_owner (offered_event_id R) (user_id Y)
              (set_event_owner (requested_event_id R) X
                (set_swap_status request_id ACCEPTED now db))))"
      by (simp add: respond_to_swap_def Let_def split: option.splits if_splits fault.splits)
    show ?thesis
      using True R A B by (auto simp: db' query_after_updates)
  next
    case False
    with ok R A B ids have db': "db' =
        revert_status (requested_event_id R)
          (revert_status (offered_event_id R) (set_swap_status request_id REJECTED now db))"
      by (simp add: respond_to_swap_def Let_def split: option.splits if_splits fault.splits)
    show ?thesis
      using False R A B by (auto simp: db' query_after_updates)
  qed
qed

theorem respond_to_swap_accept_reject_witness:
  "query_swap (snd (respond_to_swap No_fault 9 bob 100 \<lparr>accepted = True\<rparr> negotiating_db)) 100
     = Some (request 100 1 10 20 ACCEPTED 5\<lparr>updated_at := 9\<rparr>)
   \<and> query_event (snd (respond_to_swap No_fault 9 bob 100 \<lparr>accepted = True\<rparr> negotiating_db)) 10
     = Some (slot 10 8 BUSY 2)
   \<and> query_event (snd (respond_to_swap No_fault 9 bob 100 \<lparr>accepted = True\<rparr> negotiating_db)) 20
     = Some (slot 20 6 BUSY 1)
   \<and> query_event (snd (respond_to_swap No_fault 9 bob 100 \<lparr>accepted = False\<rparr> negotiating_db)) 10
     = Some (slot 10 8 SWAPPABLE 1)
   \<and> query_event (snd (respond_to_swap No_fault 9 bob 100 \<lparr>accepted = False\<rparr> negotiating_db)) 20
     = Some (slot 20 6 SWAPPABLE 2)"
proof -
  let ?R = "request 100 1 10 20 PENDING 5"
  have R: "query_swap negotiating_db 100 = Some ?R" "swap_status ?R = PENDING" "requester_id ?R = 1"
    by (simp_all add: example_defs negotiating_db_def query_swap_def)
  have A: "query_event negotiating_db (offered_event_id ?R) = Some (slot 10 8 SWAP_PENDING 1)"
    "owner_id (slot 10 8 SWAP_PENDING 1) = 1" "status (slot 10 8 SWAP_PENDING 1) = SWAP_PENDING"
    by (simp_all add: example_defs negotiating_db_def query_event_def)
  have B: "query_event negotiating_db (requested_event_id ?R) = Some (slot 20 6 SWAP_PENDING 2)"
    "owner_id (slot 20 6 SWAP_PENDING 2) = user_id bob" "status (slot 20 6 SWAP_PENDING 2) = SWAP_PENDING"
    by (simp_all add: example_defs negotiating_db_def query_event_def)
  obtain r1 where ok1: "respond_to_swap No_fault 9 bob 100 \<lparr>accepted = True\<rparr> negotiating_db
       = (Inr r1, snd (respond_to_swap No_fault 9 bob 100 \<lparr>accepted = True\<rparr> negotiating_db))"
    by (simp add: respond_to_swap_def example_defs negotiating_db_def handler_defs)
  obtain r2 where ok2: "respond_to_swap No_fault 9 bob 100 \<lparr>accepted = False\<rparr> negotiating_db
       = (Inr r2, snd (respond_to_swap No_fault 9 bob 100 \<lparr>accepted = False\<rparr> negotiating_db))"
    by (simp add: respond_to_swap_def example_defs negotiating_db_def handler_defs)
  show ?thesis
    using respond_to_swap_accept_reject [OF R A B ok1] respond_to_swap_accept_reject [OF R A B ok2]
    by (simp add: example_defs negotiating_db_def)
qed

section \<open>Creating a request\<close>

text \<open>
  C3. Let both slots of \<^verbatim>\<open>request_swap\<close> exist, the caller own the offered slot and not
  the requested one. If the offered slot is not SWAPPABLE the call fails with
  InvalidOperation and the message for the offered side; if the offered slot is
  SWAPPABLE and the requested one is not, it fails with InvalidOperation and the message
  for the requested side; in both cases the tables are unchanged. If both are SWAPPABLE
  and the call meets no fault of the store or of the response validation, the call
  succeeds, appends a PENDING request for the two slots and leaves both slots
  SWAP_PENDING.
\<close>

theorem request_swap_status_gate:
  assumes a: "query_event db (my_slot_id payload) = Some a"
    and b: "query_event db (their_slot_id payload) = Some b"
    and own: "owner_id a = user_id u" "owner_id b \<noteq> user_id u"
  shows "(status a \<noteq> SWAPPABLE \<longrightarrow>
            request_swap fault new_id now u payload db
              = (Inl (HTTPException 400 ''Your slot is not swappable''), db))
       \<and> (status a = SWAPPABLE \<and> status b \<noteq> SWAPPABLE \<longrightarrow>
            request_swap fault new_id now u payload db
              = (Inl (HTTPException 400 ''Requested slot is not swappable''), db))
       \<and> (status a = SWAPPABLE \<and> status b = SWAPPABLE \<and> fault = No_fault \<longrightarrow>
            (\<exists>resp db'. request_swap fault new_id now u payload db = (Inr resp, db')
               \<and> swap_status resp = PENDING
               \<and> swap_requests db' = swap_requests db @
                    [\<lparr>swap_id = new_id, requester_id = user_id u,
                      offered_event_id = my_slot_id payload,
                      requested_event_id = their_slot_id payload,
                      swap_status = PENDING, created_at = now, updated_at = now\<rparr>]
               \<and> query_event db' (my_slot_id payload) = Some (a\<lparr>status := SWAP_PENDING\<rparr>)
               \<and> query_event db' (their_slot_id payload) = Some (b\<lparr>status := SWAP_PENDING\<rparr>)))
       \<and> InvalidOperation (HTTPException 400 ''Your slot is not swappable'')
       \<and> InvalidOperation (HTTPException 400 ''Requested slot is not swappable'')"
proof -
  have ids: "event_id a = my_slot_id payload" "event_id b = their_slot_id payload"
    using a b by (auto dest: query_event_id)
  have ne: "my_slot_id payload \<noteq> their_slot_id payload"
    using a b own by auto
  have q: "query_event (add_swap r s) i = query_event s i" for r s i
    by (simp add: query_event_def add_swap_def)
  have sw: "swap_requests (add_swap r (set_event_status i st (set_event_status j st' db)))
              = swap_requests db @ [r]" for r i j st st'
    by (simp add: add_swap_def set_event_status_def)
  show ?thesis
    using a b own ids ne
    by (simp add: request_swap_def Let_def InvalidOperation_def q sw
        query_event_set_event_status swap_response_def)
qed

theorem request_swap_status_gate_witness:
  "request_swap No_fault 100 5 alice \<lparr>my_slot_id = 10, their_slot_id = 20\<rparr> market_db
     = (Inr (swap_response (request 100 1 10 20 PENDING 5) (slot 10 8 SWAP_PENDING 1)
               (slot 20 6 SWAP_PENDING 2) alice),
        market_db\<lparr>events := [slot 10 8 SWAP_PENDING 1, slot 20 6 SWAP_PENDING 2,
                              slot 30 7 SWAPPABLE 3, slot 40 2 BUSY 2],
                   swap_requests := [request 100 1 10 20 PENDING 5]\<rparr>)
   \<and> request_swap No_fault 100 5 alice \<lparr>my_slot_id = 10, their_slot_id = 40\<rparr> market_db
     = (Inl (HTTPException 400 ''Requested slot is not swappable''), market_db)
   \<and> request_swap No_fault 100 5 bob \<lparr>my_slot_id = 40, their_slot_id = 10\<rparr> market_db
     = (Inl (HTTPException 400 ''Your slot is not swappable''), market_db)"
proof -
  have 1: "query_event market_db (my_slot_id \<lparr>my_slot_id = 10, their_slot_id = 20\<rparr>)
             = Some (slot 10 8 SWAPPABLE 1)"
    "query_event market_db (their_slot_id \<lparr>my_slot_id = 10, their_slot_id = 20\<rparr>)
             = Some (slot 20 6 SWAPPABLE 2)"
    "owner_id (slot 10 8 SWAPPABLE 1) = user_id alice"
    "owner_id (slot 20 6 SWAPPABLE 2) \<noteq> user_id alice"
    by (simp_all add: example_defs market_db_def query_event_def)
  have 2: "query_event market_db (my_slot_id \<lparr>my_slot_id = 10, their_slot_id = 40\<rparr>)
             = Some (slot 10 8 SWAPPABLE 1)"
    "query_event market_db (their_slot_id \<lparr>my_slot_id = 10, their_slot_id = 40\<rparr>)
             = Some (slot 40 2 BUSY 2)"
    "owner_id (slot 10 8 SWAPPABLE 1) = user_id alice"
    "owner_id (slot 40 2 BUSY 2) \<noteq> user_id alice"
    by (simp_all add: example_defs market_db_def query_event_def)
  have 3: "query_event market_db (my_slot_id \<lparr>my_slot_id = 40, their_slot_id = 10\<rparr>)
             = Some (slot 40 2 BUSY 2)"
    "query_event market_db (their_slot_id \<lparr>my_slot_id = 40, their_slot_id = 10\<rparr>)
             = Some (slot 10 8 SWAPPABLE 1)"
    "owner_id (slot 40 2 BUSY 2) = user_id bob"
    "owner_id (slot 10 8 SWAPPABLE 1) \<noteq> user_id bob"
    by (simp_all add: example_defs market_db_def query_event_def)
  have run: "request_swap No_fault 100 5 alice \<lparr>my_slot_id = 10, their_slot_id = 20\<rparr> market_db
     = (Inr (swap_response (request 100 1 10 20 PENDING 5) (slot 10 8 SWAP_PENDING 1)
               (slot 20 6 SWAP_PENDING 2) alice),
        market_db\<lparr>events := [slot 10 8 SWAP_PENDING 1, slot 20 6 SWAP_PENDING 2,
                              slot 30 7 SWAPPABLE 3, slot 40 2 BUSY 2],
                   swap_requests := [request 100 1 10 20 PENDING 5]\<rparr>)"
    using request_swap_status_gate [OF 1, of No_fault 100 5]
    by (auto simp: example_defs market_db_def request_swap_def handler_defs)
  show ?thesis
    using run request_swap_status_gate [OF 2, of No_fault 100 5]
      request_swap_status_gate [OF 3, of No_fault 100 5]
    by (simp add: example_defs market_db_def)
qed

text \<open>
  C4, as stated: whenever both slots exist and the caller owns the requested slot, the
  call fails with InvalidOperation, whoever owns the offered slot. It does not: the
  ownership of the offered slot is tested first. Alice offers Bob's slot 20 for her own
  slot 10 and is refused with PermissionDenied.
\<close>

theorem request_swap_own_slot_counterexample:
  "query_event market_db 20 = Some (slot 20 6 SWAPPABLE 2)
   \<and> query_event market_db 10 = Some (slot 10 8 SWAPPABLE 1)
   \<and> owner_id (slot 10 8 SWAPPABLE 1) = user_id alice
   \<and> request_swap No_fault 100 5 alice \<lparr>my_slot_id = 20, their_slot_id = 10\<rparr> market_db
       = (Inl (HTTPException 403 ''You do not own the offered slot''), market_db)
   \<and> \<not> InvalidOperation (HTTPException 403 ''You do not own the offered slot'')"
  by (simp add: example_defs market_db_def request_swap_def query_event_def InvalidOperation_def)

text \<open>
  C4, amended: whenever both slots exist and the caller owns the requested slot, the
  call fails and changes nothing, whatever the statuses of the two slots: with
  InvalidOperation when the caller owns the offered slot too, with PermissionDenied when
  the caller does not.
\<close>

theorem request_swap_own_slot:
  assumes a: "query_event db (my_slot_id payload) = Some a"
    and b: "query_event db (their_slot_id payload) = Some b"
    and own: "owner_id b = user_id u"
  shows "(owner_id a = user_id u \<longrightarrow>
            request_swap fault new_id now u payload db
              = (Inl (HTTPException 400 ''Cannot request swap with your own slot''), db))
       \<and> (owner_id a \<noteq> user_id u \<longrightarrow>
            request_swap fault new_id now u payload db
              = (Inl (HTTPException 403 ''You do not own the offered slot''), db))
       \<and> InvalidOperation (HTTPException 400 ''Cannot request swap with your own slot'')
       \<and> PermissionDenied (HTTPException 403 ''You do not own the offered slot'')"
  using assms by (simp add: request_swap_def InvalidOperation_def PermissionDenied_def)

theorem request_swap_own_slot_witness:
  "request_swap No_fault 100 5 bob \<lparr>my_slot_id = 20, their_slot_id = 40\<rparr> market_db
     = (Inl (HTTPException 400 ''Cannot request swap with your own slot''), market_db)
   \<and> request_swap No_fault 100 5 bob \<lparr>my_slot_id = 10, their_slot_id = 40\<rparr> market_db
     = (Inl (HTTPException 403 ''You do not own the offered slot''), market_db)"
proof -
  have 1: "query_event market_db (my_slot_id \<lparr>my_slot_id = 20, their_slot_id = 40\<rparr>)
             = Some (slot 20 6 SWAPPABLE 2)"
    "query_event market_db (their_slot_id \<lparr>my_slot_id = 20, their_slot_id = 40\<rparr>)
             = Some (slot 40 2 BUSY 2)"
    "owner_id (slot 40 2 BUSY 2) = user_id bob"
    by (simp_all add: example_defs market_db_def query_event_def)
  have 2: "query_event market_db (my_slot_id \<lparr>my_slot_id = 10, their_slot_id = 40\<rparr>)
             = Some (slot 10 8 SWAPPABLE 1)"
    "query_event market_db (their_slot_id \<lparr>my_slot_id = 10, their_slot_id = 40\<rparr>)
             = Some (slot 40 2 BUSY 2)"
    "owner_id (slot 40 2 BUSY 2) = user_id bob"
    by (simp_all add: example_defs market_db_def query_event_def)
  show ?thesis
    using request_swap_own_slot [OF 1, of No_fault 100 5] request_swap_own_slot [OF 2, of No_fault 100 5]
    by (simp add: example_defs market_db_def)
qed

section \<open>A request that has been answered\<close>

text \<open>
  C5, as stated: once a request is ACCEPTED or REJECTED, every further
  \<^verbatim>\<open>respond_to_swap\<close> on it, by any user, fails with InvalidOperation. It does not: the
  caller's ownership of the requested slot is tested before the status of the request.
  Carol, who owns neither slot, answers the settled request and is refused with
  PermissionDenied.
\<close>

theorem respond_to_swap_terminal_counterexample:
  "query_swap settled_db 100 = Some (request 100 1 10 20 ACCEPTED 5\<lparr>updated_at := 9\<rparr>)
   \<and> respond_to_swap No_fault 11 carol 100 \<lparr>accepted = True\<rparr> settled_db
       = (Inl (HTTPException 403 ''Not authorized to respond to this request''), settled_db)
   \<and> \<not> InvalidOperation (HTTPException 403 ''Not authorized to respond to this request'')"
  by (simp add: example_defs settled_db_def respond_to_swap_def query_event_def query_swap_def
      InvalidOperation_def)

text \<open>
  C5, amended: once a request is ACCEPTED or REJECTED, every further
  \<^verbatim>\<open>respond_to_swap\<close> on it, by any user, fails and leaves all tables as they were; the
  failure is InvalidOperation when both slots exist and the caller owns the requested
  slot.
\<close>

theorem respond_to_swap_terminal:
  assumes R: "query_swap db request_id = Some R"
    and st: "swap_status R = ACCEPTED \<or> swap_status R = REJECTED"
  shows "(\<exists>e. respond_to_swap fault now u request_id action db = (Inl e, db))
       \<and> (\<forall>A B. query_event db (offered_event_id R) = Some A
                \<and> query_event db (requested_event_id R) = Some B
                \<and> owner_id B = user_id u \<longrightarrow>
            respond_to_swap fault now u request_id action db
              = (Inl (HTTPException 400 ''Swap request already processed''), db))
       \<and> InvalidOperation (HTTPException 400 ''Swap request already processed'')"
  using assms
  by (auto simp: respond_to_swap_def InvalidOperation_def split: option.splits)

theorem respond_to_swap_terminal_witness:
  "respond_to_swap No_fault 11 alice 100 \<lparr>accepted = False\<rparr> settled_db
     = (Inl (HTTPException 400 ''Swap request already processed''), settled_db)"
proof -
  let ?R = "request 100 1 10 20 ACCEPTED 5\<lparr>updated_at := 9\<rparr>"
  have R: "query_swap settled_db 100 = Some ?R"
    "swap_status ?R = ACCEPTED \<or> swap_status ?R = REJECTED"
    by (simp_all add: example_defs settled_db_def query_swap_def)
  have E: "query_event settled_db (offered_event_id ?R) = Some (slot 10 8 BUSY 2)
     \<and> query_event settled_db (requested_event_id ?R) = Some (slot 20 6 BUSY 1)
     \<and> owner_id (slot 20 6 BUSY 1) = user_id alice"
    by (simp add: example_defs settled_db_def query_event_def)
  from respond_to_swap_terminal [OF R, of No_fault 11 alice "\<lparr>accepted = False\<rparr>"] E
  show ?thesis by blast
qed

text \<open>
  The same happens to the user who accepted: accepting hands the requested slot to the
  requester, so when Bob answers again the request he has just accepted, he no longer
  owns its requested slot.
\<close>

lemma replay_after_accept:
  "snd (respond_to_swap No_fault 9 bob 100 \<lparr>accepted = True\<rparr> negotiating_db) = settled_db
   \<and> respond_to_swap No_fault 11 bob 100 \<lparr>accepted = False\<rparr> settled_db
       = (Inl (HTTPException 403 ''Not authorized to respond to this request''), settled_db)"
  by (simp add: respond_to_swap_def example_defs negotiating_db_def settled_db_def handler_defs)

section \<open>Events of another user\<close>

text \<open>
  C10. When no event with the given id belongs to the acting user (there is none with
  that id, or it is owned by someone else), \<^verbatim>\<open>get_event\<close>, \<^verbatim>\<open>update_event\<close> and
  \<^verbatim>\<open>delete_event\<close> all fail with the same NotFound, never PermissionDenied, and leave
  the tables unchanged.
\<close>

theorem foreign_event_not_found:
  assumes "\<forall>e\<in>set (events db). event_id e = eid \<longrightarrow> owner_id e \<noteq> user_id u"
  shows "get_event u eid db = (Inl (HTTPException 404 ''Event not found''), db)
       \<and> update_event fault u eid payload db = (Inl (HTTPException 404 ''Event not found''), db)
       \<and> delete_event fault u eid db = (Inl (HTTPException 404 ''Event not found''), db)
       \<and> NotFound (HTTPException 404 ''Event not found'')
       \<and> \<not> PermissionDenied (HTTPException 404 ''Event not found'')"
proof -
  have "query_owned_event db eid (user_id u) = None"
    using assms by (auto simp: query_owned_event_def find_None_iff)
  then show ?thesis
    by (simp add: get_event_def update_event_def delete_event_def NotFound_def PermissionDenied_def)
qed

theorem foreign_event_not_found_witness:
  "query_event market_db 20 = Some (slot 20 6 SWAPPABLE 2)
   \<and> get_event alice 20 market_db = (Inl (HTTPException 404 ''Event not found''), market_db)
   \<and> update_event No_fault alice 20 \<lparr>update_title = None, update_start_time = None,
        update_end_time = None, update_status = Some BUSY\<rparr> market_db
       = (Inl (HTTPException 404 ''Event not found''), market_db)
   \<and> delete_event No_fault alice 20 market_db = (Inl (HTTPException 404 ''Event not found''), market_db)
   \<and> get_event alice 77 market_db = (Inl (HTTPException 404 ''Event not found''), market_db)"
proof -
  have 1: "\<forall>e\<in>set (events market_db). event_id e = 20 \<longrightarrow> owner_id e \<noteq> user_id alice"
    by (simp add: example_defs market_db_def)
  have 2: "\<forall>e\<in>set (events market_db). event_id e = 77 \<longrightarrow> owner_id e \<noteq> user_id alice"
    by (simp add: example_defs market_db_def)
  have 3: "query_event market_db 20 = Some (slot 20 6 SWAPPABLE 2)"
    by (simp add: example_defs market_db_def query_event_def)
  show ?thesis
    using foreign_event_not_found [OF 1, of No_fault] foreign_event_not_found [OF 2, of No_fault] 3
    by simp
qed

section \<open>Failures and rejections leave the rest alone\<close>

text \<open>
  C6, as stated: whenever \<^verbatim>\<open>request_swap\<close> or \<^verbatim>\<open>respond_to_swap\<close> returns a failure,
  InternalError included, all tables are as before the call. They are not when the
  failure comes after the commit. Bob accepts Alice's request, the store commits and
  then fails \<^verbatim>\<open>db.refresh(swap)\<close>: the handler answers with its 500 and the swap is in the
  tables. Alice asks for a swap, the store commits and then fails the refresh of the new
  row: the answer is a 500 and the request is stored, both slots SWAP_PENDING.
\<close>

theorem failure_after_commit_counterexample:
  "respond_to_swap Refresh_fault 9 bob 100 \<lparr>accepted = True\<rparr> negotiating_db
     = (Inl (HTTPException 500 ''Failed to process swap response''), settled_db)
   \<and> InternalError (HTTPException 500 ''Failed to process swap response'')
   \<and> settled_db \<noteq> negotiating_db
   \<and> request_swap Refresh_fault 100 5 alice \<lparr>my_slot_id = 10, their_slot_id = 20\<rparr> market_db
     = (Inl unhandled,
        market_db\<lparr>events := [slot 10 8 SWAP_PENDING 1, slot 20 6 SWAP_PENDING 2,
                              slot 30 7 SWAPPABLE 3, slot 40 2 BUSY 2],
                   swap_requests := [request 100 1 10 20 PENDING 5]\<rparr>)
   \<and> InternalError unhandled
   \<and> market_db\<lparr>events := [slot 10 8 SWAP_PENDING 1, slot 20 6 SWAP_PENDING 2,
                            slot 30 7 SWAPPABLE 3, slot 40 2 BUSY 2],
                 swap_requests := [request 100 1 10 20 PENDING 5]\<rparr> \<noteq> market_db"
  by (simp add: respond_to_swap_def request_swap_def example_defs negotiating_db_def
      settled_db_def market_db_def handler_defs InternalError_def)

text \<open>
  C6, amended: whenever \<^verbatim>\<open>request_swap\<close> or \<^verbatim>\<open>respond_to_swap\<close> returns NotFound,
  PermissionDenied or InvalidOperation, or fails because the store refuses the commit,
  all tables are exactly as before the call; and after every call, failed or not, the
  tables are either as before the call or carry the complete update of the call, never
  a part of it.
\<close>

theorem failure_before_commit_leaves_tables:
  "(request_swap fault new_id now u payload db = (Inl e, db')
      \<and> (NotFound e \<or> PermissionDenied e \<or> InvalidOperation e \<or> fault = Commit_fault)
     \<longrightarrow> db' = db)
   \<and> (respond_to_swap fault now u request_id action db = (Inl e, db')
      \<and> (NotFound e \<or> PermissionDenied e \<or> InvalidOperation e \<or> fault = Commit_fault)
     \<longrightarrow> db' = db)
   \<and> (snd (request_swap fault new_id now u payload db) = db
      \<or> snd (request_swap fault new_id now u payload db)
          = request_updates new_id now u payload db)
   \<and> (snd (respond_to_swap fault now u request_id action db) = db
      \<or> (\<exists>R A B. query_swap db request_id = Some R
            \<and> query_event db (offered_event_id R) = Some A
            \<and> query_event db (requested_event_id R) = Some B
            \<and> snd (respond_to_swap fault now u request_id action db)
                = respond_updates now R A B (accepted action) db))"
proof -
  have k: "status_code e \<noteq> 500 \<or> fault = Commit_fault"
    if "NotFound e \<or> PermissionDenied e \<or> InvalidOperation e \<or> fault = Commit_fault"
    using that by (auto simp: NotFound_def PermissionDenied_def InvalidOperation_def)
  have 1: "db' = db"
    if "request_swap fault new_id now u payload db = (Inl e, db')"
      "NotFound e \<or> PermissionDenied e \<or> InvalidOperation e \<or> fault = Commit_fault"
    using that(1) k [OF that(2)] by (rule request_swap_failure)
  have 2: "db' = db"
    if "respond_to_swap fault now u request_id action db = (Inl e, db')"
      "NotFound e \<or> PermissionDenied e \<or> InvalidOperation e \<or> fault = Commit_fault"
    using that(1) k [OF that(2)] by (rule respond_to_swap_failure)
  from request_swap_tables [of fault new_id now u payload db]
  have 3: "snd (request_swap fault new_id now u payload db) = db
      \<or> snd (request_swap fault new_id now u payload db)
          = request_updates new_id now u payload db"
    by blast
  from respond_to_swap_tables [of fault now u request_id action db]
  have 4: "snd (respond_to_swap fault now u request_id action db) = db
      \<or> (\<exists>R A B. query_swap db request_id = Some R
            \<and> query_event db (offered_event_id R) = Some A
            \<and> query_event db (requested_event_id R) = Some B
            \<and> snd (respond_to_swap fault now u request_id action db)
                = respond_updates now R A B (accepted action) db)"
    by blast
  from 1 2 3 4 show ?thesis by blast
qed

theorem failure_before_commit_leaves_tables_witness:
  "respond_to_swap Commit_fault 9 bob 100 \<lparr>accepted = True\<rparr> negotiating_db
       = (Inl (HTTPException 500 ''Failed to process swap response''), negotiating_db)
   \<and> request_swap Commit_fault 100 5 alice \<lparr>my_slot_id = 10, their_slot_id = 20\<rparr> market_db
       = (Inl unhandled, market_db)
   \<and> request_swap No_fault 100 5 alice \<lparr>my_slot_id = 10, their_slot_id = 40\<rparr> market_db
       = (Inl (HTTPException 400 ''Requested slot is not swappable''), market_db)"
proof -
  let ?p = "\<lparr>my_slot_id = 10, their_slot_id = 20\<rparr>"
  let ?q = "\<lparr>my_slot_id = 10, their_slot_id = 40\<rparr>"
  let ?d1 = "snd (respond_to_swap Commit_fault 9 bob 100 \<lparr>accepted = True\<rparr> negotiating_db)"
  let ?d2 = "snd (request_swap Commit_fault 100 5 alice ?p market_db)"
  let ?d3 = "snd (request_swap No_fault 100 5 alice ?q market_db)"
  have c1: "respond_to_swap Commit_fault 9 bob 100 \<lparr>accepted = True\<rparr> negotiating_db
              = (Inl (HTTPException 500 ''Failed to process swap response''), ?d1)"
    by (simp add: prod_eq_iff respond_to_swap_def example_defs negotiating_db_def query_swap_def
        query_event_def)
  have c2: "request_swap Commit_fault 100 5 alice ?p market_db = (Inl unhandled, ?d2)"
    by (simp add: prod_eq_iff request_swap_def example_defs market_db_def query_event_def)
  have c3: "request_swap No_fault 100 5 alice ?q market_db
              = (Inl (HTTPException 400 ''Requested slot is not swappable''), ?d3)"
    by (simp add: prod_eq_iff request_swap_def example_defs market_db_def query_event_def)
  have i: "InvalidOperation (HTTPException 400 ''Requested slot is not swappable'')"
    by (simp add: InvalidOperation_def)
  have 1: "?d1 = negotiating_db"
    using failure_before_commit_leaves_tables [where db = negotiating_db and db' = "?d1"
        and fault = Commit_fault and now = 9 and u = bob and request_id = 100
        and action = "\<lparr>accepted = True\<rparr>"
        and e = "HTTPException 500 ''Failed to process swap response''"] c1
    by blast
  have 2: "?d2 = market_db"
    using failure_before_commit_leaves_tables [where db = market_db and db' = "?d2"
        and fault = Commit_fault and new_id = 100 and now = 5 and u = alice and payload = "?p"
        and e = unhandled] c2
    by blast
  have 3: "?d3 = market_db"
    using failure_before_commit_leaves_tables [where db = market_db and db' = "?d3"
        and fault = No_fault and new_id = 100 and now = 5 and u = alice and payload = "?q"
        and e = "HTTPException 400 ''Requested slot is not swappable''"] c3 i
    by blast
  show ?thesis
    using c1 c2 c3 1 2 3 by simp
qed

text \<open>
  C9. After a successful rejecting \<^verbatim>\<open>respond_to_swap\<close>, each of the two slots of the
  request is the row it was before, with status SWAPPABLE if its status was SWAP_PENDING
  and entirely unchanged otherwise.
\<close>

theorem respond_to_swap_reject_frame:
  assumes R: "query_swap db request_id = Some R"
    and ok: "respond_to_swap fault now u request_id action db = (Inr resp, db')"
    and rej: "\<not> accepted action"
    and i: "i = offered_event_id R \<or> i = requested_event_id R"
    and e: "query_event db i = Some e"
  shows "query_event db' i = Some (if status e = SWAP_PENDING then e\<lparr>status := SWAPPABLE\<rparr> else e)"
proof -
  obtain A B where A: "query_event db (offered_event_id R) = Some A"
    and B: "query_event db (requested_event_id R) = Some B"
  proof (cases "query_event db (offered_event_id R)")
    case None
    with ok R show ?thesis by (simp add: respond_to_swap_def)
  next
    case A: (Some A)
    show ?thesis
    proof (cases "query_event db (requested_event_id R)")
      case None
      with ok R A show ?thesis by (simp add: respond_to_swap_def)
    next
      case (Some B)
      with A that show ?thesis by blast
    qed
  qed
  have ids: "event_id A = offered_event_id R" "event_id B = requested_event_id R"
    using A B by (auto dest: query_event_id)
  have "db' = respond_updates now R A B (accepted action) db"
    using ok unfolding respond_to_swap_unfold [OF R A B]
    by (simp split: if_splits option.splits)
  then have db': "db' = revert_status (requested_event_id R)
          (revert_status (offered_event_id R) (set_swap_status (swap_id R) REJECTED now db))"
    using rej by (simp add: respond_updates_def ids)
  have "query_event db' i =
          map_option (\<lambda>e. if status e = SWAP_PENDING then e\<lparr>status := SWAPPABLE\<rparr> else e)
            (query_event db i)"
    unfolding db' query_event_two_reverts using i by auto
  with e show ?thesis by simp
qed

theorem respond_to_swap_reject_frame_witness:
  "query_event (snd (respond_to_swap No_fault 9 bob 100 \<lparr>accepted = False\<rparr> edited_db)) 10
     = Some (slot 10 8 BUSY 1)
   \<and> query_event (snd (respond_to_swap No_fault 9 bob 100 \<lparr>accepted = False\<rparr> edited_db)) 20
     = Some (slot 20 6 SWAPPABLE 2)"
proof -
  let ?R = "request 100 1 10 20 PENDING 5"
  have R: "query_swap edited_db 100 = Some ?R"
    by (simp add: example_defs edited_db_def query_swap_def)
  obtain r where ok: "respond_to_swap No_fault 9 bob 100 \<lparr>accepted = False\<rparr> edited_db
       = (Inr r, snd (respond_to_swap No_fault 9 bob 100 \<lparr>accepted = False\<rparr> edited_db))"
    by (simp add: respond_to_swap_def example_defs edited_db_def handler_defs)
  have rej: "\<not> accepted \<lparr>accepted = False\<rparr>" by simp
  have a: "10 = offered_event_id ?R \<or> 10 = requested_event_id ?R"
    and b: "20 = offered_event_id ?R \<or> 20 = requested_event_id ?R"
    by (simp_all add: example_defs edited_db_def)
  have ea: "query_event edited_db 10 = Some (slot 10 8 BUSY 1)"
    and eb: "query_event edited_db 20 = Some (slot 20 6 SWAP_PENDING 2)"
    by (simp_all add: example_defs edited_db_def query_event_def)
  show ?thesis
    using respond_to_swap_reject_frame [OF R ok rej a ea]
      respond_to_swap_reject_frame [OF R ok rej b eb]
    by (simp add: example_defs edited_db_def)
qed

section \<open>The listings\<close>

lemma filter_key_unique:
  "distinct (map key ys) \<Longrightarrow> find (\<lambda>y. key y = k) ys = Some y \<Longrightarrow> filter (\<lambda>y. k = key y) ys = [y]"
proof (induction ys)
  case Nil
  then show ?case by simp
next
  case (Cons a ys)
  show ?case
  proof (cases "key a = k")
    case True
    with Cons.prems have "y = a" "k \<notin> key ` set ys" by auto
    then have "filter (\<lambda>y. k = key y) ys = []" by (auto simp: filter_empty_conv)
    with True \<open>y = a\<close> show ?thesis by auto
  next
    case False
    with Cons show ?thesis by auto
  qed
qed

lemma join_function:
  "(\<And>x. x \<in> set xs \<Longrightarrow> filter (on x) ys = [g x]) \<Longrightarrow> join xs ys on = map (\<lambda>x. (x, g x)) xs"
  by (induction xs) (simp_all add: join_def)

lemma join_owner:
  assumes "primary_keys db" "foreign_keys db"
  shows "join (events db) (users db) (\<lambda>event user. owner_id event = user_id user)
           = map (\<lambda>e. (e, the (query_user db (owner_id e)))) (events db)"
proof (rule join_function)
  fix e assume "e \<in> set (events db)"
  with assms(2) obtain w where "query_user db (owner_id e) = Some w"
    by (auto simp: foreign_keys_def list_all_iff)
  moreover from this assms(1) have "filter (\<lambda>u. owner_id e = user_id u) (users db) = [w]"
    by (auto simp: primary_keys_def query_user_def intro: filter_key_unique)
  ultimately show "filter (\<lambda>u. owner_id e = user_id u) (users db) = [the (query_user db (owner_id e))]"
    by simp
qed

lemma truncate_swappable [simp]:
  "Event.truncate \<lparr>event_id = event_id e, title = title e, start_time = start_time e,
      end_time = end_time e, status = status e, owner_id = owner_id e, owner_name = n\<rparr> = e"
  by (simp add: Event.truncate_def)

text \<open>
  C7. Under the keys of the schema, \<^verbatim>\<open>list_swappable_slots\<close> for a user returns, up to
  order, exactly the slots with status SWAPPABLE whose owner is not that user, each with
  the \<^verbatim>\<open>name\<close> of its owner's row, in ascending order of \<^verbatim>\<open>start_time\<close>, and leaves the
  tables as they are.
\<close>

theorem list_swappable_slots_exact:
  assumes pk: "primary_keys db" and fk: "foreign_keys db"
  shows "mset (map Event.truncate (fst (list_swappable_slots u db)))
           = mset (filter (\<lambda>e. status e = SWAPPABLE \<and> owner_id e \<noteq> user_id u) (events db))
       \<and> sorted (map start_time (fst (list_swappable_slots u db)))
       \<and> list_all (\<lambda>r. map_option name (query_user db (owner_id r)) = Some (owner_name r))
            (fst (list_swappable_slots u db))
       \<and> snd (list_swappable_slots u db) = db"
proof -
  define P where "P = (\<lambda>e::Event. status e = SWAPPABLE \<and> owner_id e \<noteq> user_id u)"
  define h where "h = (\<lambda>e::Event. (e, name (the (query_user db (owner_id e)))))"
  define mk where "mk = (\<lambda>(event::Event, n).
      \<lparr>event_id = event_id event, title = title event, start_time = start_time event,
       end_time = end_time event, status = status event, owner_id = owner_id event,
       owner_name = n\<rparr>)"
  define rows where "rows = sort_key (\<lambda>(event, n). start_time event) (map h (filter P (events db)))"
  have res: "list_swappable_slots u db = (map mk rows, db)"
    unfolding list_swappable_slots_def join_owner [OF pk fk] Let_def rows_def mk_def
    by (simp add: filter_map o_def h_def P_def case_prod_beta)
  have tr: "Event.truncate (mk (h e)) = e" for e
    by (simp add: mk_def h_def)
  have 1: "mset (map Event.truncate (map mk rows)) = mset (filter P (events db))"
  proof -
    have "mset (map Event.truncate (map mk rows))
            = image_mset (Event.truncate \<circ> mk) (mset (map h (filter P (events db))))"
      by (simp add: rows_def)
    also have "\<dots> = mset (map (Event.truncate \<circ> mk \<circ> h) (filter P (events db)))"
      by (simp add: multiset.map_comp o_def)
    also have "Event.truncate \<circ> mk \<circ> h = id"
      by (simp add: fun_eq_iff tr)
    finally show ?thesis by simp
  qed
  have st: "start_time (mk p) = (case p of (event, n) \<Rightarrow> start_time event)" for p
    by (simp add: mk_def case_prod_beta)
  have 2: "sorted (map start_time (map mk rows))"
    by (simp add: o_def st rows_def)
  have 3: "list_all (\<lambda>r. map_option name (query_user db (owner_id r)) = Some (owner_name r))
             (map mk rows)"
  proof -
    have "map_option name (query_user db (owner_id (mk (h e)))) = Some (owner_name (mk (h e)))"
      if "e \<in> set (events db)" for e
    proof -
      from that fk obtain w where "query_user db (owner_id e) = Some w"
        by (auto simp: foreign_keys_def list_all_iff)
      then show ?thesis by (simp add: mk_def h_def)
    qed
    then show ?thesis
      by (auto simp: list_all_iff rows_def)
  qed
  show ?thesis
    unfolding res P_def [symmetric] using 1 2 3 by simp
qed


theorem list_swappable_slots_exact_witness:
  "mset (map Event.truncate (fst (list_swappable_slots alice market_db)))
     = {#slot 20 6 SWAPPABLE 2, slot 30 7 SWAPPABLE 3#}
   \<and> sorted (map start_time (fst (list_swappable_slots alice market_db)))
   \<and> snd (list_swappable_slots alice market_db) = market_db"
proof -
  have pk: "primary_keys market_db"
    by (simp add: primary_keys_def example_defs market_db_def)
  have fk: "foreign_keys market_db"
    by (simp add: foreign_keys_def example_defs market_db_def query_user_def query_event_def)
  show ?thesis
    using list_swappable_slots_exact [OF pk fk, of alice]
    by (simp add: example_defs market_db_def)
qed

lemma swap_rows_function:
  assumes pk: "primary_keys db" and fk: "foreign_keys db"
  shows "swap_rows db =
           map (\<lambda>r. (((r, the (query_event db (offered_event_id r))),
                         the (query_event db (requested_event_id r))),
                        the (query_user db (requester_id r))))
             (swap_requests db)"
proof -
  have ev: "filter (\<lambda>e. k = event_id e) (events db) = [the (query_event db k)]"
    if "query_event db k \<noteq> None" for k
    using that pk
    by (auto simp: primary_keys_def query_event_def intro: filter_key_unique)
  have us: "filter (\<lambda>w. k = user_id w) (users db) = [the (query_user db k)]"
    if "query_user db k \<noteq> None" for k
    using that pk
    by (auto simp: primary_keys_def query_user_def intro: filter_key_unique)
  have r: "query_user db (requester_id r) \<noteq> None" "query_event db (offered_event_id r) \<noteq> None"
    "query_event db (requested_event_id r) \<noteq> None" if "r \<in> set (swap_requests db)" for r
    using that fk by (auto simp: foreign_keys_def list_all_iff)
  have j1: "join (swap_requests db) (events db)
              (\<lambda>swap offered_evt. offered_event_id swap = event_id offered_evt)
            = map (\<lambda>r. (r, the (query_event db (offered_event_id r)))) (swap_requests db)"
    by (rule join_function) (simp add: ev r)
  have j2: "join (map (\<lambda>r. (r, the (query_event db (offered_event_id r)))) (swap_requests db))
              (events db)
              (\<lambda>(swap, offered_evt) requested_evt. requested_event_id swap = event_id requested_evt)
            = map (\<lambda>p. (p, the (query_event db (requested_event_id (fst p)))))
                (map (\<lambda>r. (r, the (query_event db (offered_event_id r)))) (swap_requests db))"
    by (rule join_function) (auto simp: ev r)
  have j3: "join (map (\<lambda>p. (p, the (query_event db (requested_event_id (fst p)))))
                (map (\<lambda>r. (r, the (query_event db (offered_event_id r)))) (swap_requests db)))
              (users db)
              (\<lambda>((swap, offered_evt), requested_evt) user. requester_id swap = user_id user)
            = map (\<lambda>q. (q, the (query_user db (requester_id (fst (fst q))))))
                (map (\<lambda>p. (p, the (query_event db (requested_event_id (fst p)))))
                   (map (\<lambda>r. (r, the (query_event db (offered_event_id r)))) (swap_requests db)))"
    by (rule join_function) (auto simp: us r)
  show ?thesis
    unfolding swap_rows_def j1 j2 j3 by (simp add: o_def)
qed

lemma truncate_swap_response [simp]: "SwapRequest.truncate (swap_response r a b w) = r"
  by (simp add: swap_response_def SwapRequest.truncate_def)

lemma created_at_swap_response [simp]: "created_at (swap_response r a b w) = created_at r"
  by (simp add: swap_response_def)

lemma listing_of_rows:
  fixes row :: "SwapRequest \<Rightarrow> ((SwapRequest \<times> Event) \<times> Event) \<times> User"
  assumes row: "\<And>r. fst (fst (fst (row r))) = r"
  defines "result \<equiv> \<lambda>Q rs.
    map (\<lambda>(((swap, offered_event), requested_event), requester).
           swap_response swap offered_event requested_event requester)
      (sort_key (\<lambda>(((swap, offered_event), requested_event), requester). - created_at swap)
         (filter Q (map row rs)))"
  shows "mset (map SwapRequest.truncate (result Q rs)) = mset (filter (Q \<circ> row) rs)"
    and "sorted_wrt (\<lambda>a b. created_at a \<ge> created_at b) (result Q rs)"
proof -
  define resp where "resp = (\<lambda>p :: ((SwapRequest \<times> Event) \<times> Event) \<times> User.
     swap_response (fst (fst (fst p))) (snd (fst (fst p))) (snd (fst p)) (snd p))"
  define key where "key = (\<lambda>p :: ((SwapRequest \<times> Event) \<times> Event) \<times> User.
     - created_at (fst (fst (fst p))))"
  have r1: "(\<lambda>(((swap, offered_event), requested_event), requester).
               swap_response swap offered_event requested_event requester) = resp"
    by (simp add: resp_def fun_eq_iff)
  have r2: "(\<lambda>(((swap, offered_event), requested_event), requester). - created_at swap) = key"
    by (simp add: key_def fun_eq_iff)
  have res: "result Q rs = map resp (sort_key key (filter Q (map row rs)))"
    unfolding result_def r1 r2 ..
  have t: "SwapRequest.truncate (resp (row r)) = r" for r
    by (simp add: resp_def row)
  have "mset (map SwapRequest.truncate (result Q rs))
          = image_mset (SwapRequest.truncate \<circ> resp) (mset (map row (filter (Q \<circ> row) rs)))"
    by (simp add: res filter_map multiset.map_comp o_def)
  also have "\<dots> = image_mset (\<lambda>r. SwapRequest.truncate (resp (row r))) (mset (filter (Q \<circ> row) rs))"
    by (simp add: multiset.map_comp o_def)
  also have "\<dots> = mset (filter (Q \<circ> row) rs)"
    by (simp add: t)
  finally show "mset (map SwapRequest.truncate (result Q rs)) = mset (filter (Q \<circ> row) rs)" .
  have c: "created_at (resp p) = - key p" for p
    by (simp add: resp_def key_def)
  have "sorted (map key (sort_key key (filter Q (map row rs))))"
    by (rule sorted_sort_key)
  then show "sorted_wrt (\<lambda>a b. created_at a \<ge> created_at b) (result Q rs)"
    by (simp add: res sorted_map sorted_wrt_map c)
qed

text \<open>
  C8. Under the keys of the schema, \<^verbatim>\<open>list_incoming_requests\<close> for a user returns, up to
  order, exactly the PENDING requests whose requested slot that user owns, and
  \<^verbatim>\<open>list_outgoing_requests\<close> exactly the requests of any status whose requester is that
  user; both in descending order of \<^verbatim>\<open>created_at\<close>, and both leave the tables as they are.
\<close>

theorem list_requests_exact:
  assumes pk: "primary_keys db" and fk: "foreign_keys db"
  shows "mset (map SwapRequest.truncate (fst (list_incoming_requests u db)))
           = mset (filter (\<lambda>r. swap_status r = PENDING
                  \<and> map_option owner_id (query_event db (requested_event_id r)) = Some (user_id u))
                (swap_requests db))
       \<and> mset (map SwapRequest.truncate (fst (list_outgoing_requests u db)))
           = mset (filter (\<lambda>r. requester_id r = user_id u) (swap_requests db))
       \<and> sorted_wrt (\<lambda>a b. created_at a \<ge> created_at b) (fst (list_incoming_requests u db))
       \<and> sorted_wrt (\<lambda>a b. created_at a \<ge> created_at b) (fst (list_outgoing_requests u db))
       \<and> snd (list_incoming_requests u db) = db
       \<and> snd (list_outgoing_requests u db) = db"
proof -
  define row where "row = (\<lambda>r::SwapRequest. (((r, the (query_event db (offered_event_id r))),
                         the (query_event db (requested_event_id r))),
                        the (query_user db (requester_id r))))"
  have rows: "swap_rows db = map row (swap_requests db)"
    unfolding row_def by (rule swap_rows_function [OF pk fk])
  have row1: "fst (fst (fst (row r))) = r" for r by (simp add: row_def)
  note L = listing_of_rows [of row, OF row1]
  have ex: "query_event db (requested_event_id r) \<noteq> None" if "r \<in> set (swap_requests db)" for r
    using that fk by (auto simp: foreign_keys_def list_all_iff)
  have fin: "filter ((\<lambda>(((swap, offered_event), requested_event), requester).
                 swap_status swap = PENDING \<and> owner_id requested_event = user_id u) \<circ> row)
               (swap_requests db)
             = filter (\<lambda>r. swap_status r = PENDING
                  \<and> map_option owner_id (query_event db (requested_event_id r)) = Some (user_id u))
                (swap_requests db)"
    by (rule filter_cong) (auto simp: row_def dest: ex)
  have fout: "filter ((\<lambda>(((swap, offered_event), requested_event), requester).
                 requester_id swap = user_id u) \<circ> row) (swap_requests db)
             = filter (\<lambda>r. requester_id r = user_id u) (swap_requests db)"
    by (rule filter_cong) (auto simp: row_def)
  show ?thesis
    unfolding list_incoming_requests_def list_outgoing_requests_def rows Let_def fst_conv snd_conv
    using L(1) [of "\<lambda>(((swap, offered_event), requested_event), requester).
                 swap_status swap = PENDING \<and> owner_id requested_event = user_id u"
               "swap_requests db"]
      L(1) [of "\<lambda>(((swap, offered_event), requested_event), requester).
                 requester_id swap = user_id u" "swap_requests db"]
      L(2)
    by (simp only: fin fout simp_thms)
qed

theorem list_requests_exact_witness:
  "mset (map SwapRequest.truncate (fst (list_incoming_requests bob history_db)))
     = {#request 100 1 10 20 PENDING 5, request 101 3 30 40 PENDING 7#}
   \<and> mset (map SwapRequest.truncate (fst (list_outgoing_requests alice history_db)))
     = {#request 100 1 10 20 PENDING 5, request 102 1 50 60 REJECTED 6#}
   \<and> sorted_wrt (\<lambda>a b. created_at a \<ge> created_at b) (fst (list_incoming_requests bob history_db))
   \<and> sorted_wrt (\<lambda>a b. created_at a \<ge> created_at b) (fst (list_outgoing_requests alice history_db))
   \<and> snd (list_incoming_requests bob history_db) = history_db
   \<and> snd (list_outgoing_requests alice history_db) = history_db"
proof -
  have pk: "primary_keys history_db"
    by (simp add: primary_keys_def example_defs history_db_def)
  have fk: "foreign_keys history_db"
    by (simp add: foreign_keys_def example_defs history_db_def query_user_def query_event_def)
  show ?thesis
    using list_requests_exact [OF pk fk, of bob] list_requests_exact [OF pk fk, of alice]
    by (simp add: example_defs history_db_def query_event_def)
qed

section \<open>One slot in two open negotiations\<close>

text \<open>
  C2 says that in every state reached through the public operations a slot is on a side
  of at most one PENDING request. \<^verbatim>\<open>update_event\<close> writes whatever status its payload
  carries, also over SWAP_PENDING: after the nine calls of \<open>double_booking\<close>, each
  accepted by the store, Bob's slot 20 is the requested side of two PENDING requests.
\<close>

theorem double_booking_two_pending:
  "run double_booking initial_db =
     \<lparr>users = [alice, bob, carol],
      events = [slot 10 8 SWAP_PENDING 1, slot 20 6 SWAP_PENDING 2, slot 30 7 SWAP_PENDING 3],
      swap_requests = [request 100 1 10 20 PENDING 5, request 101 3 30 20 PENDING 6]\<rparr>
   \<and> pending_references (run double_booking initial_db) 20
       = [request 100 1 10 20 PENDING 5, request 101 3 30 20 PENDING 6]"
  by (simp add: run_Cons run_Nil create_event_def update_event_def request_swap_def
      pending_references_def example_defs initial_db_def double_booking_def
      make_swappable_def new_slot_def handler_defs Let_def)

subsection \<open>Every other path keeps the invariant\<close>

lemma pending_references_mem:
  "r \<in> set (pending_references db i) \<longleftrightarrow>
     r \<in> set (swap_requests db) \<and> swap_status r = PENDING \<and> references r i"
  by (auto simp: pending_references_def references_def)

lemma two_members: "x \<in> set xs \<Longrightarrow> y \<in> set xs \<Longrightarrow> x \<noteq> y \<Longrightarrow> 2 \<le> length xs"
  by (cases xs; cases "tl xs") auto

lemma invariant_disjoint:
  assumes inv: "negotiation_invariant db"
    and r: "r \<in> set (swap_requests db)" "swap_status r = PENDING" "references r i"
    and r': "r' \<in> set (swap_requests db)" "swap_status r' = PENDING" "references r' i"
  shows "r' = r"
proof (rule ccontr)
  assume "r' \<noteq> r"
  with r r' have "2 \<le> length (pending_references db i)"
    by (intro two_members [of r' _ r]) (simp_all add: pending_references_mem)
  moreover from inv have "length (pending_references db i) \<le> 1"
    by (simp add: negotiation_invariant_def)
  ultimately show False by simp
qed

lemma query_event_mem: "query_event db i = Some e \<Longrightarrow> e \<in> set (events db) \<and> event_id e = i"
  by (auto simp: query_event_def find_Some_iff)

lemma query_owned_event_mem:
  "query_owned_event db i ow = Some e \<Longrightarrow> e \<in> set (events db) \<and> event_id e = i"
  by (auto simp: query_owned_event_def find_Some_iff)

lemma invariant_create_event:
  assumes "negotiation_invariant db" "guarded (CreateEvent f new_id u p) db"
  shows "negotiation_invariant (snd (create_event f new_id u p db))"
  using assms
  by (cases f)
    (auto simp: negotiation_invariant_def create_event_def Let_def add_event_def
      pending_references_def)

lemma invariant_delete_event:
  assumes "negotiation_invariant db"
  shows "negotiation_invariant (snd (delete_event f u eid db))"
  using assms
  by (cases f)
    (auto simp: negotiation_invariant_def delete_event_def delete_row_def
      pending_references_def split: option.splits)


lemma invariant_update_event:
  assumes inv: "negotiation_invariant db" and g: "guarded (UpdateEvent f u eid p) db"
  shows "negotiation_invariant (snd (update_event f u eid p db))"
proof (cases "query_owned_event db eid (user_id u)")
  case None
  with inv show ?thesis by (simp add: update_event_def)
next
  case (Some ev)
  then have ev: "ev \<in> set (events db)" "event_id ev = eid"
    by (auto dest: query_owned_event_mem)
  define e4 where "e4 =
    (let e1 = (case update_title p of None \<Rightarrow> ev | Some t \<Rightarrow> ev\<lparr>title := t\<rparr>);
         e2 = (case update_start_time p of None \<Rightarrow> e1 | Some t \<Rightarrow> e1\<lparr>start_time := t\<rparr>);
         e3 = (case update_end_time p of None \<Rightarrow> e2 | Some t \<Rightarrow> e2\<lparr>end_time := t\<rparr>)
     in (case update_status p of None \<Rightarrow> e3 | Some st \<Rightarrow> e3\<lparr>status := st\<rparr>))"
  have id4: "event_id e4 = eid"
    by (simp add: e4_def Let_def ev split: option.splits)
  have st4: "status e4 = (case update_status p of None \<Rightarrow> status ev | Some st \<Rightarrow> st)"
    by (simp add: e4_def Let_def split: option.splits)
  have res: "snd (update_event f u eid p db)
               = (if f = Commit_fault then db else write_event e4 db)"
    by (cases f) (simp_all add: update_event_def Some e4_def Let_def)
  show ?thesis
  proof (cases "f = Commit_fault")
    case True
    with inv res show ?thesis by simp
  next
    case False
    have sw: "swap_requests (write_event e4 db) = swap_requests db"
      by (simp add: write_event_def)
    have pr: "pending_references (write_event e4 db) i = pending_references db i" for i
      by (simp add: pending_references_def sw)
    have "status e = SWAP_PENDING"
      if r: "r \<in> set (swap_requests db)" "swap_status r = PENDING"
        and e: "e \<in> set (events (write_event e4 db))" "references r (event_id e)" for r e
    proof (cases "e \<in> set (events db)")
      case True
      with inv r e show ?thesis by (auto simp: negotiation_invariant_def)
    next
      case False
      with e have ee: "e = e4" by (auto simp: write_event_def split: if_splits)
      with e id4 ev have "references r (event_id ev)" by simp
      with inv r ev have "status ev = SWAP_PENDING"
        by (auto simp: negotiation_invariant_def)
      with g Some show ?thesis by (auto simp: ee st4)
    qed
    moreover from res False have "snd (update_event f u eid p db) = write_event e4 db"
      by simp
    ultimately show ?thesis
      using inv by (simp add: negotiation_invariant_def sw pr)
  qed
qed

lemma invariant_request_swap:
  assumes inv: "negotiation_invariant db"
  shows "negotiation_invariant (snd (request_swap f new_id now u p db))"
proof (cases "snd (request_swap f new_id now u p db) = db")
  case True
  with inv show ?thesis by simp
next
  case False
  with request_swap_tables [of f new_id now u p db]
  obtain a b where a: "query_event db (my_slot_id p) = Some a" "status a = SWAPPABLE"
    and b: "query_event db (their_slot_id p) = Some b" "status b = SWAPPABLE"
    and upd: "snd (request_swap f new_id now u p db) = request_updates new_id now u p db"
    by blast
  define new where "new = \<lparr>swap_id = new_id, requester_id = user_id u,
      offered_event_id = my_slot_id p, requested_event_id = their_slot_id p,
      swap_status = PENDING, created_at = now, updated_at = now\<rparr>"
  define db' where "db' = add_swap new (set_event_status (their_slot_id p) SWAP_PENDING
      (set_event_status (my_slot_id p) SWAP_PENDING db))"
  have ids: "event_id a = my_slot_id p" "event_id b = their_slot_id p"
    "a \<in> set (events db)" "b \<in> set (events db)"
    using a b by (auto dest: query_event_mem)
  have res: "snd (request_swap f new_id now u p db) = db'"
    by (simp add: upd request_updates_def db'_def new_def)
  have sw: "swap_requests db' = swap_requests db @ [new]"
    by (simp add: db'_def add_swap_def set_event_status_def)
  have ev: "events db' = map (\<lambda>e. if event_id e = my_slot_id p \<or> event_id e = their_slot_id p
                                  then e\<lparr>status := SWAP_PENDING\<rparr> else e) (events db)"
    by (auto simp: db'_def add_swap_def set_event_status_def)
  have free: "pending_references db i = []" if "i = my_slot_id p \<or> i = their_slot_id p" for i
  proof (rule ccontr)
    assume "pending_references db i \<noteq> []"
    then obtain r where "r \<in> set (pending_references db i)"
      by (cases "pending_references db i") auto
    then have r: "r \<in> set (swap_requests db)" "swap_status r = PENDING" "references r i"
      by (simp_all add: pending_references_mem)
    from that ids obtain e where "e \<in> set (events db)" "event_id e = i" "status e = SWAPPABLE"
      using a(2) b(2) by auto
    with inv r show False by (auto simp: negotiation_invariant_def)
  qed
  have pr: "pending_references db' i =
              pending_references db i @ (if references new i then [new] else [])" for i
    by (simp add: pending_references_def sw references_def new_def)
  have i2: "length (pending_references db' i) \<le> 1" for i
  proof (cases "references new i")
    case True
    then have "pending_references db i = []"
      by (intro free) (auto simp: references_def new_def)
    with True show ?thesis by (simp add: pr)
  next
    case False
    with inv show ?thesis by (simp add: pr negotiation_invariant_def)
  qed
  have i1: "status e = SWAP_PENDING"
    if "r \<in> set (swap_requests db')" "swap_status r = PENDING"
      "e \<in> set (events db')" "references r (event_id e)" for r e
  proof -
    from that(3) obtain e0 where e0: "e0 \<in> set (events db)"
      "e = (if event_id e0 = my_slot_id p \<or> event_id e0 = their_slot_id p
            then e0\<lparr>status := SWAP_PENDING\<rparr> else e0)"
      by (auto simp: ev)
    show ?thesis
    proof (cases "event_id e0 = my_slot_id p \<or> event_id e0 = their_slot_id p")
      case True
      with e0 show ?thesis by simp
    next
      case False
      with e0 have ee: "e = e0" by simp
      from that(1) have "r = new \<or> r \<in> set (swap_requests db)" by (auto simp: sw)
      then show ?thesis
      proof
        assume "r = new"
        with that(4) False ee show ?thesis by (auto simp: references_def new_def)
      next
        assume "r \<in> set (swap_requests db)"
        with inv that(2,4) e0(1) ee show ?thesis
          by (auto simp: negotiation_invariant_def)
      qed
    qed
  qed
  show ?thesis
    unfolding res negotiation_invariant_def using i1 i2 by blast
qed

lemma touches_only_refl: "touches_only I db db"
  by (auto simp: touches_only_def)

lemma touches_only_trans:
  assumes 1: "touches_only I db db'" and 2: "touches_only I db' db''"
  shows "touches_only I db db''"
  unfolding touches_only_def
proof
  fix e'' assume "e'' \<in> set (events db'')"
  with 2 obtain e' where e': "e' \<in> set (events db')" "event_id e'' = event_id e'"
    "event_id e' \<notin> I \<longrightarrow> e'' = e'"
    unfolding touches_only_def by blast
  with 1 obtain e where e: "e \<in> set (events db)" "event_id e' = event_id e"
    "event_id e \<notin> I \<longrightarrow> e' = e"
    unfolding touches_only_def by blast
  from e' e show "\<exists>e\<in>set (events db). event_id e'' = event_id e \<and> (event_id e \<notin> I \<longrightarrow> e'' = e)"
    by (intro bexI [of _ e]) auto
qed

lemma touches_only_map:
  assumes "events s' = map f (events s)"
    and "\<And>e. event_id (f e) = event_id e" and "\<And>e. event_id e \<notin> I \<Longrightarrow> f e = e"
  shows "touches_only I s s'"
  unfolding touches_only_def using assms by auto

lemma touches_only_step:
  "i \<in> I \<Longrightarrow> touches_only I s (set_event_status i st s)"
  "i \<in> I \<Longrightarrow> touches_only I s (set_event_owner i ow s)"
  "touches_only I s (set_swap_status k sst now s)"
proof -
  show "i \<in> I \<Longrightarrow> touches_only I s (set_event_status i st s)"
    by (rule touches_only_map [where f = "\<lambda>e. if event_id e = i then e\<lparr>status := st\<rparr> else e"])
      (auto simp: set_event_status_def)
  show "i \<in> I \<Longrightarrow> touches_only I s (set_event_owner i ow s)"
    by (rule touches_only_map [where f = "\<lambda>e. if event_id e = i then e\<lparr>owner_id := ow\<rparr> else e"])
      (auto simp: set_event_owner_def)
  show "touches_only I s (set_swap_status k sst now s)"
    by (rule touches_only_map [where f = "\<lambda>e. e"]) (auto simp: set_swap_status_def)
qed

lemma touches_only_revert: "i \<in> I \<Longrightarrow> touches_only I s (revert_status i s)"
  by (simp add: revert_status_def touches_only_step touches_only_refl)

lemma touches_only_then:
  "touches_only I db s \<Longrightarrow> i \<in> I \<Longrightarrow> touches_only I db (set_event_status i st s)"
  "touches_only I db s \<Longrightarrow> i \<in> I \<Longrightarrow> touches_only I db (set_event_owner i ow s)"
  "touches_only I db s \<Longrightarrow> i \<in> I \<Longrightarrow> touches_only I db (revert_status i s)"
proof -
  show "touches_only I db s \<Longrightarrow> i \<in> I \<Longrightarrow> touches_only I db (set_event_status i st s)"
    by (erule touches_only_trans) (rule touches_only_step)
  show "touches_only I db s \<Longrightarrow> i \<in> I \<Longrightarrow> touches_only I db (set_event_owner i ow s)"
    by (erule touches_only_trans) (rule touches_only_step)
  show "touches_only I db s \<Longrightarrow> i \<in> I \<Longrightarrow> touches_only I db (revert_status i s)"
    by (erule touches_only_trans) (rule touches_only_revert)
qed

lemma touches_only_respond_updates:
  "touches_only {event_id A, event_id B} db (respond_updates now R A B acc db)"
  unfolding respond_updates_def
  by (simp add: touches_only_then touches_only_step)

lemma swap_requests_updates:
  "swap_requests (set_event_status i st s) = swap_requests s"
  "swap_requests (set_event_owner i ow s) = swap_requests s"
  "swap_requests (revert_status i s) = swap_requests s"
  "swap_requests (set_swap_status k sst now s) =
     map (\<lambda>r. if swap_id r = k then r\<lparr>swap_status := sst, updated_at := now\<rparr> else r)
       (swap_requests s)"
proof -
  show 1: "swap_requests (set_event_status i st s) = swap_requests s" for i st s
    by (simp add: set_event_status_def)
  show "swap_requests (set_event_owner i ow s) = swap_requests s"
    by (simp add: set_event_owner_def)
  show "swap_requests (revert_status i s) = swap_requests s"
    by (simp add: revert_status_def 1)
  show "swap_requests (set_swap_status k sst now s) =
     map (\<lambda>r. if swap_id r = k then r\<lparr>swap_status := sst, updated_at := now\<rparr> else r)
       (swap_requests s)"
    by (simp add: set_swap_status_def)
qed

lemma swap_requests_respond_updates:
  "swap_requests (respond_updates now R A B acc db) =
     map (\<lambda>r. if swap_id r = swap_id R
               then r\<lparr>swap_status := (if acc then ACCEPTED else REJECTED), updated_at := now\<rparr>
               else r) (swap_requests db)"
  by (cases acc) (simp_all add: respond_updates_def swap_requests_updates)

lemma length_filter_map_le:
  "(\<And>x. P (f x) \<Longrightarrow> P x) \<Longrightarrow> length (filter P (map f xs)) \<le> length (filter P xs)"
  by (induction xs) auto

lemma invariant_respond_updates:
  assumes inv: "negotiation_invariant db"
    and R: "query_swap db request_id = Some R" "swap_status R = PENDING"
    and A: "query_event db (offered_event_id R) = Some A"
    and B: "query_event db (requested_event_id R) = Some B"
  shows "negotiation_invariant (respond_updates now R A B acc db)"
proof -
  let ?db' = "respond_updates now R A B acc db"
  have ids: "event_id A = offered_event_id R" "event_id B = requested_event_id R"
    using A B by (auto dest: query_event_id)
  have Rm: "R \<in> set (swap_requests db)" using R(1) by (rule query_swap_mem)
  have still: "r \<in> set (swap_requests db) \<and> swap_id r \<noteq> swap_id R"
    if "r \<in> set (swap_requests ?db')" "swap_status r = PENDING" for r
    using that by (auto simp: swap_requests_respond_updates split: if_splits)
  have i2: "length (pending_references ?db' i) \<le> 1" for i
  proof -
    have "length (pending_references ?db' i) \<le> length (pending_references db i)"
      unfolding pending_references_def swap_requests_respond_updates
      by (rule length_filter_map_le) (auto split: if_splits)
    also from inv have "\<dots> \<le> 1" by (simp add: negotiation_invariant_def)
    finally show ?thesis .
  qed
  have i1: "status e' = SWAP_PENDING"
    if r: "r \<in> set (swap_requests ?db')" "swap_status r = PENDING"
      and e': "e' \<in> set (events ?db')" "references r (event_id e')" for r e'
  proof -
    from still [OF r] have r0: "r \<in> set (swap_requests db)" "r \<noteq> R" by auto
    from e'(1) touches_only_respond_updates [of A B db now R acc]
    obtain e where e: "e \<in> set (events db)" "event_id e' = event_id e"
      "event_id e \<notin> {event_id A, event_id B} \<longrightarrow> e' = e"
      unfolding touches_only_def by blast
    have "event_id e \<notin> {event_id A, event_id B}"
    proof
      assume "event_id e \<in> {event_id A, event_id B}"
      then have "references R (event_id e)" by (auto simp: references_def ids)
      with invariant_disjoint [OF inv Rm R(2) this r0(1) r(2)] e'(2) e(2) r0(2)
      show False by simp
    qed
    with e have "e' = e" by simp
    with inv r0(1) r(2) e(1) e'(2) show ?thesis
      by (auto simp: negotiation_invariant_def)
  qed
  show ?thesis
    unfolding negotiation_invariant_def using i1 i2 by blast
qed

lemma invariant_respond_to_swap:
  assumes inv: "negotiation_invariant db"
  shows "negotiation_invariant (snd (respond_to_swap f now u request_id action db))"
proof (cases "query_swap db request_id")
  case None
  with inv show ?thesis by (simp add: respond_to_swap_def)
next
  case (Some R)
  show ?thesis
  proof (cases "query_event db (offered_event_id R)")
    case None
    with inv Some show ?thesis by (simp add: respond_to_swap_def)
  next
    case A: (Some A)
    show ?thesis
    proof (cases "query_event db (requested_event_id R)")
      case None
      with inv Some A show ?thesis by (simp add: respond_to_swap_def)
    next
      case B: (Some B)
      have "snd (respond_to_swap f now u request_id action db) = db
            \<or> swap_status R = PENDING
              \<and> snd (respond_to_swap f now u request_id action db)
                  = respond_updates now R A B (accepted action) db"
        unfolding respond_to_swap_unfold [OF Some A B]
        by (simp split: option.splits)
      with inv invariant_respond_updates [OF inv Some _ A B] show ?thesis
        by auto
    qed
  qed
qed

lemma invariant_apply_operation:
  "negotiation_invariant db \<Longrightarrow> guarded x db \<Longrightarrow> negotiation_invariant (apply_operation x db)"
  by (cases x)
    (simp_all add: invariant_create_event invariant_update_event invariant_delete_event
      invariant_request_swap invariant_respond_to_swap)

lemma invariant_run:
  "negotiation_invariant db \<Longrightarrow> guarded_run ops db \<Longrightarrow> negotiation_invariant (run ops db)"
  by (induction ops arbitrary: db) (simp_all add: run_Nil run_Cons invariant_apply_operation)

text \<open>
  Without the two kinds of call that \<open>guarded\<close> excludes, no history leads to a slot in
  two open negotiations: the status gate of \<^verbatim>\<open>request_swap\<close> and the transitions of
  \<^verbatim>\<open>respond_to_swap\<close> do keep the invariant.
\<close>

theorem one_open_negotiation_guarded:
  assumes "guarded_run ops initial_db"
  shows "length (pending_references (run ops initial_db) i) \<le> 1"
proof -
  have "negotiation_invariant initial_db"
    by (simp add: negotiation_invariant_def initial_db_def pending_references_def)
  from invariant_run [OF this assms] show ?thesis
    by (simp add: negotiation_invariant_def)
qed

section \<open>Requesters stay registered\<close>

text \<open>
  The only failure of \<^verbatim>\<open>respond_to_swap\<close> after its commit that is not a fault of the
  environment would be a request whose requester has no row. No history of calls by
  registered users leads there, and where every requester has a row the owner of the
  requested slot of a PENDING request, meeting no fault, does get a response.
\<close>

lemma foreign_keys_requesters: "foreign_keys db \<Longrightarrow> requesters_registered db"
  by (auto simp: foreign_keys_def requesters_registered_def list_all_iff)

lemma respond_to_swap_succeeds:
  assumes reg: "requesters_registered db"
    and R: "query_swap db request_id = Some R" "swap_status R = PENDING"
    and A: "query_event db (offered_event_id R) = Some A"
    and B: "query_event db (requested_event_id R) = Some B" "owner_id B = user_id u"
  shows "\<exists>resp. respond_to_swap No_fault now u request_id action db
           = (Inr resp, respond_updates now R A B (accepted action) db)"
proof -
  from R(1) reg have u: "query_user db (requester_id R) \<noteq> None"
    by (auto simp: requesters_registered_def list_all_iff dest: query_swap_mem)
  note q = respond_updates_queries [OF R(1) A B(1), of now "accepted action"]
  obtain r' a' b' w where
    "query_swap (respond_updates now R A B (accepted action) db) (swap_id R) = Some r'"
    "query_user (respond_updates now R A B (accepted action) db) (requester_id R) = Some w"
    "query_event (respond_updates now R A B (accepted action) db) (offered_event_id R) = Some a'"
    "query_event (respond_updates now R A B (accepted action) db) (requested_event_id R) = Some b'"
    using q u by (metis not_None_eq)
  with R(2) B(2) show ?thesis
    unfolding respond_to_swap_unfold [OF R(1) A B(1)] by simp
qed

lemma requesters_registered_cong:
  assumes "requesters_registered db" "users db' = users db"
    and "\<And>r'. r' \<in> set (swap_requests db') \<Longrightarrow>
           (\<exists>r\<in>set (swap_requests db). requester_id r' = requester_id r)
           \<or> query_user db (requester_id r') \<noteq> None"
  shows "requesters_registered db'"
  using assms unfolding requesters_registered_def list_all_iff query_user_def by metis

lemma users_updates:
  "users (set_event_status i st s) = users s"
  "users (set_event_owner i ow s) = users s"
  "users (set_swap_status k sst now s) = users s"
  "users (add_swap r s) = users s"
  "users (add_event e s) = users s"
  "users (delete_row i s) = users s"
  "users (write_event e s) = users s"
  by (simp_all add: set_event_status_def set_event_owner_def set_swap_status_def add_swap_def
      add_event_def delete_row_def write_event_def)

lemma users_revert_status: "users (revert_status i s) = users s"
  by (simp add: revert_status_def users_updates)

lemma users_respond_updates: "users (respond_updates now R A B acc db) = users db"
  by (simp add: respond_updates_def users_updates users_revert_status)

lemma users_request_updates: "users (request_updates new_id now u p db) = users db"
  by (simp add: request_updates_def users_updates)

lemma swap_requests_request_updates:
  "swap_requests (request_updates new_id now u p db) =
     swap_requests db @
       [\<lparr>swap_id = new_id, requester_id = user_id u, offered_event_id = my_slot_id p,
         requested_event_id = their_slot_id p, swap_status = PENDING,
         created_at = now, updated_at = now\<rparr>]"
  by (simp add: request_updates_def add_swap_def swap_requests_updates)

lemma event_handler_tables:
  "snd (create_event f new_id u c db) = db \<or> (\<exists>e. snd (create_event f new_id u c db) = add_event e db)"
  "snd (update_event f u eid p db) = db \<or> (\<exists>e. snd (update_event f u eid p db) = write_event e db)"
  "snd (delete_event f u eid db) = db \<or> (\<exists>i. snd (delete_event f u eid db) = delete_row i db)"
proof -
  show "snd (create_event f new_id u c db) = db
        \<or> (\<exists>e. snd (create_event f new_id u c db) = add_event e db)"
    by (cases f) (auto simp: create_event_def Let_def)
  show "snd (update_event f u eid p db) = db
        \<or> (\<exists>e. snd (update_event f u eid p db) = write_event e db)"
    by (cases f; cases "query_owned_event db eid (user_id u)")
      (auto simp: update_event_def Let_def)
  show "snd (delete_event f u eid db) = db
        \<or> (\<exists>i. snd (delete_event f u eid db) = delete_row i db)"
    by (cases f; cases "query_owned_event db eid (user_id u)")
      (auto simp: delete_event_def)
qed

lemma requesters_registered_events:
  assumes "requesters_registered db"
  shows "requesters_registered (add_event e db)"
    and "requesters_registered (write_event e db)"
    and "requesters_registered (delete_row i db)"
  using assms
  by (simp_all add: requesters_registered_def query_user_def add_event_def write_event_def
      delete_row_def)

lemma requesters_registered_respond_to_swap:
  assumes "requesters_registered db"
  shows "requesters_registered (snd (respond_to_swap f now u request_id action db))"
proof -
  have "requesters_registered (respond_updates now R A B acc db)" for R A B acc
    using assms
    by (rule requesters_registered_cong)
      (auto simp: users_respond_updates swap_requests_respond_updates split: if_splits)
  with assms respond_to_swap_tables [of f now u request_id action db] show ?thesis
    by auto
qed

lemma requesters_registered_request_swap:
  assumes "requesters_registered db" "query_user db (user_id u) \<noteq> None"
  shows "requesters_registered (snd (request_swap f new_id now u p db))"
proof -
  have "requesters_registered (request_updates new_id now u p db)"
    using assms(1)
    by (rule requesters_registered_cong)
      (use assms(2) in \<open>auto simp: users_request_updates swap_requests_request_updates\<close>)
  with assms(1) request_swap_tables [of f new_id now u p db] show ?thesis
    by auto
qed

lemma requesters_registered_apply:
  assumes "requesters_registered db" "query_user db (user_id (acting_user x)) \<noteq> None"
  shows "requesters_registered (apply_operation x db)"
proof (cases x)
  case (CreateEvent f new_id u c)
  with assms(1) event_handler_tables(1) [of f new_id u c db] show ?thesis
    by (auto simp: requesters_registered_events)
next
  case (UpdateEvent f u eid p)
  with assms(1) event_handler_tables(2) [of f u eid p db] show ?thesis
    by (auto simp: requesters_registered_events)
next
  case (DeleteEvent f u eid)
  with assms(1) event_handler_tables(3) [of f u eid db] show ?thesis
    by (auto simp: requesters_registered_events)
next
  case (RequestSwap f new_id now u p)
  with assms show ?thesis by (simp add: requesters_registered_request_swap)
next
  case (RespondToSwap f now u rid a)
  with assms show ?thesis by (simp add: requesters_registered_respond_to_swap)
qed

lemma users_apply_operation: "users (apply_operation x db) = users db"
proof (cases x)
  case (CreateEvent f new_id u c)
  with event_handler_tables(1) [of f new_id u c db] show ?thesis
    by (auto simp: users_updates)
next
  case (UpdateEvent f u eid p)
  with event_handler_tables(2) [of f u eid p db] show ?thesis
    by (auto simp: users_updates)
next
  case (DeleteEvent f u eid)
  with event_handler_tables(3) [of f u eid db] show ?thesis
    by (auto simp: users_updates)
next
  case (RequestSwap f new_id now u p)
  with request_swap_tables [of f new_id now u p db] show ?thesis
    by (auto simp: users_request_updates)
next
  case (RespondToSwap f now u rid a)
  with respond_to_swap_tables [of f now u rid a db] show ?thesis
    by (auto simp: users_respond_updates)
qed

lemma requesters_registered_run:
  assumes "requesters_registered db"
    and "list_all (\<lambda>x. query_user db (user_id (acting_user x)) \<noteq> None) ops"
  shows "requesters_registered (run ops db)"
  using assms
proof (induction ops arbitrary: db)
  case Nil
  then show ?case by (simp add: run_Nil)
next
  case (Cons x xs)
  have "query_user (apply_operation x db) i = query_user db i" for i
    by (simp add: query_user_def users_apply_operation)
  with Cons show ?case
    by (simp add: run_Cons requesters_registered_apply)
qed

end
